theory Spec2Isabelle
  imports Main "HOL-Library.Word" "HOL-Library.AList" "HOL-Library.Char_ord" "HOL-Library.List_Lexorder"
begin

section \<open>The ordered key-value engine\<close>

text \<open>
  Keys and values are byte strings. A value read back from the engine is
  \<open>None\<close> where Go has the nil slice (key absent).
\<close>

type_synonym bytes = string

datatype error = EngineError string | WrongKindError | BadArgumentCount | BadArgumentType

text \<open>A write batch (levigo.WriteBatch) is the list of its operations, in call order.\<close>

datatype batch_op = Put bytes bytes | Delete bytes

text \<open>
  The engine handle: the stored pairs (an association list with distinct keys)
  and the outcome the environment gives to reads and to writes: \<open>Some e\<close> means
  that the engine call fails with error \<open>e\<close>.
\<close>

record LevelRedis =
  db :: "(bytes \<times> bytes) list"
  read_err :: "error option"
  write_err :: "error option"

definition db_Get :: "LevelRedis \<Rightarrow> bytes \<Rightarrow> bytes option \<times> error option" where
  "db_Get r k = (case read_err r of
                   Some e \<Rightarrow> (None, Some e)
                 | None \<Rightarrow> (map_of (db r) k, None))"

fun apply_op :: "(bytes \<times> bytes) list \<Rightarrow> batch_op \<Rightarrow> (bytes \<times> bytes) list" where
  "apply_op s (Put k v) = AList.update k v s"
| "apply_op s (Delete k) = AList.delete k s"

text \<open>A batch applies atomically: all of it, in order, or (on failure) none of it.\<close>

definition db_Write :: "LevelRedis \<Rightarrow> batch_op list \<Rightarrow> LevelRedis \<times> error option" where
  "db_Write r batch = (case write_err r of
                         Some e \<Rightarrow> (r, Some e)
                       | None \<Rightarrow> (r\<lparr>db := foldl apply_op (db r) batch\<rparr>, None))"

definition db_Put :: "LevelRedis \<Rightarrow> bytes \<Rightarrow> bytes \<Rightarrow> LevelRedis \<times> error option" where
  "db_Put r k v = db_Write r [Put k v]"

definition db_Delete :: "LevelRedis \<Rightarrow> bytes \<Rightarrow> LevelRedis \<times> error option" where
  "db_Delete r k = db_Write r [Delete k]"

datatype direction = IteratorForward | IteratorBackward

text \<open>
  Modelled from the spec: \<open>Enumerate\<close> is not among the source files. The spec has
  it as the directional range enumerator that, for a key interval, calls back with
  (sequence index, key, value) for each matching key in order. Here it returns the
  pairs whose key lies in \<open>[min, max]\<close> in byte order, ascending when forward and
  descending when backward; the callers below consume the list.
\<close>

definition Enumerate :: "LevelRedis \<Rightarrow> bytes \<Rightarrow> bytes \<Rightarrow> direction \<Rightarrow> (bytes \<times> bytes) list" where
  "Enumerate r min_key max_key d =
     (let hits = sort_key fst (filter (\<lambda>(k, v). min_key \<le> k \<and> k \<le> max_key) (db r))
      in case d of IteratorForward \<Rightarrow> hits | IteratorBackward \<Rightarrow> rev hits)"

section \<open>Key codec\<close>

text \<open>
  Modelled from the spec: the codec constants and \<open>joinStringBytes\<close> are not among
  the source files. The values follow the key patterns of the spec's data model
  (\<open>__key{userkey}:list\<close>, \<open>__list{userkey}idx:cursor\<close>, \<open>__zset{userkey}m#member\<close>).
  \<open>MAXBYTE\<close> is the sentinel byte of open-ended scans; \<open>RemoveByScore\<close> writes the
  literal 254 in its place.
\<close>

definition KEY_PREFIX :: string where "KEY_PREFIX = ''__key''"
definition LIST_PREFIX :: string where "LIST_PREFIX = ''__list''"
definition ZSET_PREFIX :: string where "ZSET_PREFIX = ''__zset''"
definition SEP_LEFT :: string where "SEP_LEFT = ''{''"
definition SEP_RIGHT :: string where "SEP_RIGHT = ''}''"
definition SEP :: string where "SEP = ''#''"
definition LIST_SUFFIX :: string where "LIST_SUFFIX = '':list''"
definition ZSET_SUFFIX :: string where "ZSET_SUFFIX = '':zset''"
definition MAXBYTE :: char where "MAXBYTE = CHR 0xFE"

definition joinStringBytes :: "string list \<Rightarrow> bytes" where
  "joinStringBytes parts = concat parts"

subsection \<open>strconv.FormatInt in base 10\<close>

definition digit_char :: "nat \<Rightarrow> char" where
  "digit_char d = ''0123456789'' ! d"

fun nat_dec :: "nat \<Rightarrow> string" where
  "nat_dec n = (if n < 10 then [digit_char n]
                else nat_dec (n div 10) @ [digit_char (n mod 10)])"

declare nat_dec.simps [simp del]

definition FormatInt :: "64 word \<Rightarrow> string" where
  "FormatInt i = (if sint i < 0 then CHR ''-'' # nat_dec (nat (- sint i))
                  else nat_dec (nat (sint i)))"

section \<open>The list (LevelList)\<close>

record Element =
  Value :: "bytes option"

text \<open>The cursors are int64: 64-bit words, compared as signed numbers.\<close>

record LevelList =
  entryKey :: string
  start :: "64 word"
  end' :: "64 word"
  inTransaction :: bool

definition infoKey :: "LevelList \<Rightarrow> bytes" where
  "infoKey l = joinStringBytes [KEY_PREFIX, SEP_LEFT, entryKey l, SEP_RIGHT, LIST_SUFFIX]"

definition infoValue :: "LevelList \<Rightarrow> bytes" where
  "infoValue l = FormatInt (start l) @ '','' @ FormatInt (end' l)"

definition keyPrefix :: "LevelList \<Rightarrow> bytes" where
  "keyPrefix l = joinStringBytes [LIST_PREFIX, SEP_LEFT, entryKey l, SEP_RIGHT]"

definition idxKey :: "LevelList \<Rightarrow> 64 word \<Rightarrow> bytes" where
  "idxKey l idx =
     joinStringBytes [LIST_PREFIX, SEP_LEFT, entryKey l, SEP_RIGHT, ''idx'', '':'', FormatInt idx]"

definition len :: "LevelList \<Rightarrow> 64 word" where
  "len l = (if end' l <s start l then 0 else end' l - start l + 1)"

definition Len :: "LevelList \<Rightarrow> 64 word" where
  "Len l = len l"

definition BeginTransaction :: "LevelList \<Rightarrow> LevelList" where
  "BeginTransaction l = (if inTransaction l then l else l\<lparr>inTransaction := True\<rparr>)"

text \<open>\<open>Commit\<close> drops the error of its single put or delete.\<close>

definition Commit :: "LevelList \<Rightarrow> LevelRedis \<Rightarrow> LevelList \<times> LevelRedis" where
  "Commit l r =
     (if \<not> inTransaction l then (l, r)
      else let r' = (if len l = 0 then fst (db_Delete r (infoKey l))
                     else fst (db_Put r (infoKey l) (infoValue l)))
           in (l\<lparr>inTransaction := False\<rparr>, r'))"

fun LPush_loop :: "LevelList \<Rightarrow> batch_op list \<Rightarrow> bytes list \<Rightarrow> LevelList \<times> batch_op list" where
  "LPush_loop l batch [] = (l, batch)"
| "LPush_loop l batch (v # vs) =
     (let l1 = l\<lparr>start := start l - 1\<rparr>
      in LPush_loop l1 (batch @ [Put (idxKey l1 (start l1)) v]) vs)"

definition LPush :: "LevelList \<Rightarrow> LevelRedis \<Rightarrow> bytes list \<Rightarrow> LevelList \<times> LevelRedis \<times> error option" where
  "LPush l r vs =
     (let oldstart = start l;
          (l1, batch1) = LPush_loop l [] vs;
          batch2 = (if \<not> inTransaction l1 then batch1 @ [Put (infoKey l1) (infoValue l1)]
                    else batch1);
          (r', err) = db_Write r batch2
      in case err of
           Some e \<Rightarrow> (l1\<lparr>start := oldstart\<rparr>, r', err)
         | None \<Rightarrow> (l1, r', err))"

fun RPush_loop :: "LevelList \<Rightarrow> batch_op list \<Rightarrow> bytes list \<Rightarrow> LevelList \<times> batch_op list" where
  "RPush_loop l batch [] = (l, batch)"
| "RPush_loop l batch (v # vs) =
     (let l1 = l\<lparr>end' := end' l + 1\<rparr>
      in RPush_loop l1 (batch @ [Put (idxKey l1 (end' l1)) v]) vs)"

definition RPush :: "LevelList \<Rightarrow> LevelRedis \<Rightarrow> bytes list \<Rightarrow> LevelList \<times> LevelRedis \<times> error option" where
  "RPush l r vs =
     (let oldend = end' l;
          (l1, batch1) = RPush_loop l [] vs;
          batch2 = (if \<not> inTransaction l1 then batch1 @ [Put (infoKey l1) (infoValue l1)]
                    else batch1);
          (r', err) = db_Write r batch2
      in case err of
           Some e \<Rightarrow> (l1\<lparr>end' := oldend\<rparr>, r', err)
         | None \<Rightarrow> (l1, r', err))"

text \<open>
  The pops return the element, the error, and the updated list and engine. A failed
  read returns before anything changes; a failed write puts both cursors back and
  still returns the element read, with the error.
\<close>

definition RPop :: "LevelList \<Rightarrow> LevelRedis \<Rightarrow> Element option \<times> error option \<times> LevelList \<times> LevelRedis" where
  "RPop l r =
     (if len l = 0 then (None, None, l, r)
      else
        let oldstart = start l; oldend = end' l;
            idx = end' l;
            (val, gerr) = db_Get r (idxKey l idx)
        in case gerr of
             Some e \<Rightarrow> (None, Some e, l, r)
           | None \<Rightarrow>
               let shouldReset = (len l = 1);
                   batch0 = [Delete (idxKey l idx)];
                   (l1, batch1) =
                     (if shouldReset
                      then (l\<lparr>start := 0, end' := - 1\<rparr>, batch0 @ [Delete (infoKey l)])
                      else (let l2 = l\<lparr>end' := end' l - 1\<rparr>
                            in (l2, batch0 @ [Put (infoKey l2) (infoValue l2)])));
                   (r', werr) = db_Write r batch1
               in case werr of
                    Some e \<Rightarrow> (Some \<lparr>Value = val\<rparr>, Some e, l1\<lparr>start := oldstart, end' := oldend\<rparr>, r')
                  | None \<Rightarrow> (Some \<lparr>Value = val\<rparr>, None, l1, r'))"

definition LPop :: "LevelList \<Rightarrow> LevelRedis \<Rightarrow> Element option \<times> error option \<times> LevelList \<times> LevelRedis" where
  "LPop l r =
     (if len l = 0 then (None, None, l, r)
      else
        let oldstart = start l; oldend = end' l;
            idx = start l;
            (val, gerr) = db_Get r (idxKey l idx)
        in case gerr of
             Some e \<Rightarrow> (None, Some e, l, r)
           | None \<Rightarrow>
               let shouldReset = (len l = 1);
                   batch0 = [Delete (idxKey l idx)];
                   (l1, batch1) =
                     (if shouldReset
                      then (l\<lparr>start := 0, end' := - 1\<rparr>, batch0 @ [Delete (infoKey l)])
                      else (let l2 = l\<lparr>start := start l + 1\<rparr>
                            in (l2, batch0 @ [Put (infoKey l2) (infoValue l2)])));
                   (r', werr) = db_Write r batch1
               in case werr of
                    Some e \<Rightarrow> (Some \<lparr>Value = val\<rparr>, Some e, l1\<lparr>start := oldstart, end' := oldend\<rparr>, r')
                  | None \<Rightarrow> (Some \<lparr>Value = val\<rparr>, None, l1, r'))"

definition Index :: "LevelList \<Rightarrow> LevelRedis \<Rightarrow> 64 word \<Rightarrow> Element option \<times> error option" where
  "Index l r i =
     (if i <s 0 \<or> len l \<le>s i then (None, None)
      else
        let idx = start l + i;
            (val, gerr) = db_Get r (idxKey l idx)
        in case gerr of
             Some e \<Rightarrow> (None, Some e)
           | None \<Rightarrow> (Some \<lparr>Value = val\<rparr>, None))"

text \<open>
  The loop of \<open>TrimLeft\<close>: \<open>idx\<close> runs from \<open>oldstart\<close> while it is below
  \<open>oldstart + int64(count)\<close> and not beyond \<open>oldend\<close>, both compared as signed
  64-bit numbers. It ends at the latest when \<open>idx\<close> is the largest int64.
\<close>

function TrimLeft_loop :: "LevelList \<Rightarrow> 64 word \<Rightarrow> 64 word \<Rightarrow> 64 word \<Rightarrow> batch_op list \<Rightarrow> LevelList \<times> batch_op list" where
  "TrimLeft_loop l idx bound oldend batch =
     (if idx <s bound \<and> idx \<le>s oldend
      then TrimLeft_loop (l\<lparr>start := start l + 1\<rparr>) (idx + 1) bound oldend
             (batch @ [Delete (idxKey l idx)])
      else (l, batch))"
  by pat_completeness auto
termination
  apply (relation "measure (\<lambda>(l, idx, bound, oldend, batch). nat (2 ^ 63 - sint idx))")
   apply simp
  subgoal for l idx bound oldend batch
    using sint_lt [of bound] sint_ge [of idx] sint_lt [of idx]
    by (simp add: word_sless_alt sint_word_add signed_take_bit_int_eq_self)
  done

declare TrimLeft_loop.simps [simp del]

text \<open>
  \<open>TrimLeft\<close> returns its named result \<open>n\<close>, which no statement assigns. The count is
  a uint, read as int64 in the loop bound. The error of the write is not returned.
\<close>

definition TrimLeft :: "LevelList \<Rightarrow> LevelRedis \<Rightarrow> 64 word \<Rightarrow> 64 word \<times> LevelList \<times> LevelRedis" where
  "TrimLeft l r count =
     (let n = 0
      in if len l = 0 then (n, l, r)
         else
           let oldstart = start l; oldend = end' l;
               (l1, batch1) = TrimLeft_loop l oldstart (oldstart + count) oldend [];
               shouldReset = (len l1 = 0);
               (l2, batch2) =
                 (if shouldReset
                  then (l1\<lparr>start := 0, end' := - 1\<rparr>, batch1 @ [Delete (infoKey l1)])
                  else (l1, batch1 @ [Put (infoKey l1) (infoValue l1)]));
               (r', err) = db_Write r batch2
           in case err of
                Some e \<Rightarrow> (n, l2\<lparr>start := oldstart, end' := oldend\<rparr>, r')
              | None \<Rightarrow> (n, l2, r'))"

definition LevelList_Drop :: "LevelList \<Rightarrow> LevelRedis \<Rightarrow> bool \<times> LevelList \<times> LevelRedis" where
  "LevelList_Drop l r =
     (let min_key = keyPrefix l;
          max_key = min_key @ [MAXBYTE];
          batch1 = map (\<lambda>(k, v). Delete k) (Enumerate r min_key max_key IteratorForward);
          batch2 = batch1 @ [Delete (infoKey l)];
          r' = fst (db_Write r batch2)
      in (True, l\<lparr>start := 0, end' := - 1\<rparr>, r'))"

subsection \<open>strconv.ParseInt in base 10 and the start of a list\<close>

text \<open>
  \<open>ParseUint\<close> reads decimal digits into a uint64: a byte that is no digit is a
  syntax error, a value beyond \<open>2^64 - 1\<close> a range error, found in reading order.
  \<open>ParseInt\<close> takes an optional sign first; it returns 0 on a syntax error and the
  nearest int64 on a range error. The callers here drop the error.
\<close>

datatype num_error = ErrSyntax | ErrRange

definition is_digit :: "char \<Rightarrow> bool" where
  "is_digit c = (CHR ''0'' \<le> c \<and> c \<le> CHR ''9'')"

definition digit_val :: "char \<Rightarrow> nat" where
  "digit_val c = of_char c - 48"

fun ParseUint_loop :: "nat \<Rightarrow> string \<Rightarrow> num_error + nat" where
  "ParseUint_loop n [] = Inr n"
| "ParseUint_loop n (c # cs) =
     (if \<not> is_digit c then Inl ErrSyntax
      else if n \<ge> (2 ^ 64 - 1) div 10 + 1 then Inl ErrRange
      else let n1 = n * 10 + digit_val c
           in if n1 > 2 ^ 64 - 1 then Inl ErrRange else ParseUint_loop n1 cs)"

definition ParseUint :: "string \<Rightarrow> num_error + nat" where
  "ParseUint s = (if s = [] then Inl ErrSyntax else ParseUint_loop 0 s)"

definition ParseInt :: "string \<Rightarrow> 64 word \<times> num_error option" where
  "ParseInt s =
     (case s of
        [] \<Rightarrow> (0, Some ErrSyntax)
      | c # cs \<Rightarrow>
          let neg = (c = CHR ''-'');
              s1 = (if c = CHR ''+'' \<or> c = CHR ''-'' then cs else s)
          in case ParseUint s1 of
               Inl ErrSyntax \<Rightarrow> (0, Some ErrSyntax)
             | Inl ErrRange \<Rightarrow> (if neg then (- (2 ^ 63), Some ErrRange) else (2 ^ 63 - 1, Some ErrRange))
             | Inr un \<Rightarrow>
                 if \<not> neg \<and> un \<ge> 2 ^ 63 then (2 ^ 63 - 1, Some ErrRange)
                 else if neg \<and> un > 2 ^ 63 then (- (2 ^ 63), Some ErrRange)
                 else if neg then (- of_nat un, None) else (of_nat un, None))"

text \<open>\<open>strings.Split\<close> and \<open>bytes.Split\<close> on a one-byte separator: never the empty list.\<close>

fun Split :: "char \<Rightarrow> string \<Rightarrow> string list" where
  "Split d [] = [[]]"
| "Split d (c # cs) =
     (if c = d then [] # Split d cs
      else (case Split d cs of w # ws \<Rightarrow> (c # w) # ws | [] \<Rightarrow> [[c]]))"

definition initInfo :: "LevelList \<Rightarrow> LevelRedis \<Rightarrow> LevelList" where
  "initInfo l r =
     (let (data, err) = db_Get r (infoKey l)
      in case err of
           Some e \<Rightarrow> l
         | None \<Rightarrow>
             let pairs = Split CHR '','' (case data of None \<Rightarrow> [] | Some d \<Rightarrow> d)
             in if length pairs < 2 then l
                else l\<lparr>start := fst (ParseInt (pairs ! 0)), end' := fst (ParseInt (pairs ! 1))\<rparr>)"

definition NewLevelList :: "LevelRedis \<Rightarrow> string \<Rightarrow> LevelList" where
  "NewLevelList r ek = initInfo \<lparr>entryKey = ek, start = 0, end' = - 1, inTransaction = False\<rparr> r"

section \<open>The sorted set (LevelZSet)\<close>

text \<open>The cached count is a Go int, 64 bits wide; \<open>- 1\<close> marks "not loaded yet".\<close>

record LevelZSet =
  key :: string
  totalCount :: "64 word"

definition NewLevelZSet :: "string \<Rightarrow> LevelZSet" where
  "NewLevelZSet k = \<lparr>key = k, totalCount = - 1\<rparr>"

definition zsetKey :: "LevelZSet \<Rightarrow> bytes" where
  "zsetKey z = joinStringBytes [KEY_PREFIX, SEP_LEFT, key z, SEP_RIGHT, ZSET_SUFFIX]"

definition zsetValue :: "LevelZSet \<Rightarrow> bytes" where
  "zsetValue z = FormatInt (totalCount z)"

definition memberKey :: "LevelZSet \<Rightarrow> bytes \<Rightarrow> bytes" where
  "memberKey z member =
     joinStringBytes [ZSET_PREFIX, SEP_LEFT, key z, SEP_RIGHT, ''m'', SEP, member]"

definition scoreKey :: "LevelZSet \<Rightarrow> bytes \<Rightarrow> bytes \<Rightarrow> bytes" where
  "scoreKey z member score =
     joinStringBytes [ZSET_PREFIX, SEP_LEFT, key z, SEP_RIGHT, ''s'', SEP, score, SEP, member]"

definition scoreKeyPrefix :: "LevelZSet \<Rightarrow> bytes" where
  "scoreKeyPrefix z = joinStringBytes [ZSET_PREFIX, SEP_LEFT, key z, SEP_RIGHT, ''s'', SEP]"

definition initOnce :: "LevelZSet \<Rightarrow> LevelRedis \<Rightarrow> LevelZSet" where
  "initOnce z r =
     (if totalCount z = - 1
      then (case fst (db_Get r (zsetKey z)) of
              Some data \<Rightarrow> z\<lparr>totalCount := fst (ParseInt data)\<rparr>
            | None \<Rightarrow> z\<lparr>totalCount := 0\<rparr>)
      else z)"

text \<open>
  The loop of \<open>Add\<close> over the (score, member) pairs. The old score is read from the
  engine, not from the batch under construction. A trailing score without a member
  is an index out of range: the result is \<open>None\<close>.
\<close>

fun Add_loop :: "LevelZSet \<Rightarrow> LevelRedis \<Rightarrow> batch_op list \<Rightarrow> 64 word \<Rightarrow> bytes list
    \<Rightarrow> (LevelZSet \<times> batch_op list \<times> 64 word) option" where
  "Add_loop z r batch n [] = Some (z, batch, n)"
| "Add_loop z r batch n [score] = None"
| "Add_loop z r batch n (score # member # rest) =
     (let memberkey = memberKey z member;
          batch1 = batch @ [Put memberkey score];
          (z1, batch2) =
            (case db_Get r memberkey of
               (Some oldscore, None) \<Rightarrow> (z, batch1 @ [Delete (scoreKey z member oldscore)])
             | _ \<Rightarrow> (z\<lparr>totalCount := totalCount z + 1\<rparr>, batch1));
          batch3 = batch2 @ [Put (scoreKey z1 member score) []]
      in Add_loop z1 r batch3 (n + 1) rest)"

text \<open>The sorted-set operations drop the error of their batch write.\<close>

definition Add :: "LevelZSet \<Rightarrow> LevelRedis \<Rightarrow> bytes list \<Rightarrow> (64 word \<times> LevelZSet \<times> LevelRedis) option" where
  "Add z r scoreMembers =
     (let z0 = initOnce z r
      in case Add_loop z0 r [] 0 scoreMembers of
           None \<Rightarrow> None
         | Some (z1, batch, n) \<Rightarrow>
             let batch' = batch @ [Put (zsetKey z1) (zsetValue z1)];
                 r' = fst (db_Write r batch')
             in Some (n, z1, r'))"

definition Score :: "LevelZSet \<Rightarrow> LevelRedis \<Rightarrow> bytes \<Rightarrow> bytes option" where
  "Score z r member = fst (db_Get r (memberKey z member))"

text \<open>
  \<open>Int64ToBytes\<close> and \<open>BytesToInt64\<close> are not among the source files and the spec
  leaves the score encoding open: \<open>IncrBy\<close> takes them as parameters.
\<close>

definition IncrBy :: "(64 word \<Rightarrow> bytes) \<Rightarrow> (bytes \<Rightarrow> 64 word) \<Rightarrow> LevelZSet \<Rightarrow> LevelRedis \<Rightarrow> bytes \<Rightarrow> 64 word
    \<Rightarrow> bytes \<times> LevelZSet \<times> LevelRedis" where
  "IncrBy Int64ToBytes BytesToInt64 z r member incr =
     (let z0 = initOnce z r;
          score = Score z0 r member;
          (batch1, newscore) =
            (case score of
               None \<Rightarrow> ([], Int64ToBytes incr)
             | Some sc \<Rightarrow> ([Delete (scoreKey z0 member sc)], Int64ToBytes (BytesToInt64 sc + incr)));
          batch2 = batch1 @ [Put (memberKey z0 member) newscore, Put (scoreKey z0 member newscore) []];
          r' = fst (db_Write r batch2)
      in (newscore, z0, r'))"

fun Remove_loop :: "LevelZSet \<Rightarrow> LevelRedis \<Rightarrow> batch_op list \<Rightarrow> 64 word \<Rightarrow> bytes list
    \<Rightarrow> batch_op list \<times> 64 word" where
  "Remove_loop z r batch n [] = (batch, n)"
| "Remove_loop z r batch n (member # rest) =
     (case db_Get r (memberKey z member) of
        (Some score, None) \<Rightarrow>
          Remove_loop z r (batch @ [Delete (memberKey z member), Delete (scoreKey z member score)])
            (n + 1) rest
      | _ \<Rightarrow> Remove_loop z r batch n rest)"

definition Remove :: "LevelZSet \<Rightarrow> LevelRedis \<Rightarrow> bytes list \<Rightarrow> 64 word \<times> LevelZSet \<times> LevelRedis" where
  "Remove z r members =
     (let z0 = initOnce z r;
          (batch, n) = Remove_loop z0 r [] 0 members;
          z1 = z0\<lparr>totalCount := totalCount z0 - n\<rparr>;
          batch' = (if totalCount z1 = 0 then batch @ [Delete (zsetKey z1)]
                    else batch @ [Put (zsetKey z1) (zsetValue z1)]);
          r' = fst (db_Write r batch')
      in (n, z1, r'))"

definition LevelZSet_Len :: "LevelZSet \<Rightarrow> LevelRedis \<Rightarrow> 64 word \<times> LevelZSet" where
  "LevelZSet_Len z r = (let z0 = initOnce z r in (totalCount z0, z0))"

text \<open>
  \<open>Drop\<close> of the sorted set does not load the count first, and scans the keys that
  start with \<open>KEY_PREFIX\<close>, the user key in its delimiters.
\<close>

definition LevelZSet_Drop :: "LevelZSet \<Rightarrow> LevelRedis \<Rightarrow> bool \<times> LevelZSet \<times> LevelRedis" where
  "LevelZSet_Drop z r =
     (if totalCount z = 0 then (True, z, r)
      else
        let min_key = joinStringBytes [KEY_PREFIX, SEP_LEFT, key z, SEP_RIGHT];
            max_key = min_key @ [MAXBYTE];
            batch1 = map (\<lambda>(k, v). Delete k) (Enumerate r min_key max_key IteratorForward);
            batch2 = batch1 @ [Delete (zsetKey z)];
            r' = fst (db_Write r batch2)
        in (True, z\<lparr>totalCount := 0\<rparr>, r'))"

text \<open>The entries of the two index families of a sorted set, as a scan finds them.\<close>

definition member_entries :: "LevelZSet \<Rightarrow> LevelRedis \<Rightarrow> (bytes \<times> bytes) list" where
  "member_entries z r =
     (let min_key = joinStringBytes [ZSET_PREFIX, SEP_LEFT, key z, SEP_RIGHT, ''m'', SEP]
      in Enumerate r min_key (min_key @ [MAXBYTE]) IteratorForward)"

definition score_entries :: "LevelZSet \<Rightarrow> LevelRedis \<Rightarrow> (bytes \<times> bytes) list" where
  "score_entries z r =
     (let min_key = scoreKeyPrefix z
      in Enumerate r min_key (min_key @ [MAXBYTE]) IteratorForward)"

section \<open>The path-addressed document (MapDocument)\<close>

text \<open>
  A value of Go's \<open>interface{}\<close> as the document holds it. \<open>'f\<close> is the type of
  float64 values; the conversion \<open>int(x)\<close> of a float is a parameter of \<open>toInt\<close>.
  A mapping is an association list with distinct keys; the documents are trees, no
  mapping object is shared between two places.
\<close>

datatype 'f jvalue =
    VNil
  | VBool bool
  | VInt "64 word"
  | VFloat 'f
  | VString string
  | VList "'f jvalue list"
  | VMap "(string \<times> 'f jvalue) list"

type_synonym 'f document = "(string \<times> 'f jvalue) list"

definition dot :: char where "dot = CHR ''.''"

text \<open>
  A reference to a mapping inside a document is the path of keys that leads to it:
  \<open>get_at\<close> reads the mapping at a path, \<open>put_at\<close> replaces it, and
  \<open>assign_at d path k v\<close> is the assignment \<open>parent[k] = v\<close> through that reference.
\<close>

fun get_at :: "'f document \<Rightarrow> string list \<Rightarrow> 'f document" where
  "get_at d [] = d"
| "get_at d (k # ks) = (case map_of d k of Some (VMap m) \<Rightarrow> get_at m ks | _ \<Rightarrow> [])"

fun put_at :: "'f document \<Rightarrow> string list \<Rightarrow> 'f document \<Rightarrow> 'f document" where
  "put_at d [] m' = m'"
| "put_at d (k # ks) m' =
     (case map_of d k of
        Some (VMap m) \<Rightarrow> AList.update k (VMap (put_at m ks m')) d
      | _ \<Rightarrow> d)"

definition assign_at :: "'f document \<Rightarrow> string list \<Rightarrow> string \<Rightarrow> 'f jvalue \<Rightarrow> 'f document" where
  "assign_at d path k v = put_at d path (AList.update k v (get_at d path))"


text \<open>
  The loop of \<open>findElement\<close> over all segments but the last: it returns the document
  (with the mappings it created) and whether the parent exists.
\<close>

fun findElement_loop :: "'f document \<Rightarrow> string list \<Rightarrow> bool \<Rightarrow> 'f document \<times> bool" where
  "findElement_loop parent [] createIfMissing = (parent, True)"
| "findElement_loop parent (curkey # rest) createIfMissing =
     (case map_of parent curkey of
        Some (VMap m) \<Rightarrow>
          (let (m', exist) = findElement_loop m rest createIfMissing
           in (AList.update curkey (VMap m') parent, exist))
      | _ \<Rightarrow>
          if createIfMissing
          then (let (m', exist) = findElement_loop [] rest createIfMissing
                in (AList.update curkey (VMap m') parent, exist))
          else (parent, False))"

text \<open>
  \<open>findElement\<close> returns the document after the walk, the path of the parent, the
  key, the object at the key and \<open>exist\<close>.
\<close>

definition findElement :: "'f document \<Rightarrow> string \<Rightarrow> bool
    \<Rightarrow> 'f document \<times> string list \<times> string \<times> 'f jvalue option \<times> bool" where
  "findElement d field createIfMissing =
     (let pairs = Split dot field;
          (d', exist) = findElement_loop d (butlast pairs) createIfMissing
      in if exist then (d', butlast pairs, last pairs, map_of (get_at d' (butlast pairs)) (last pairs), True)
         else (d', [], [], None, False))"












text \<open>
  \<open>RichGet\<close>. The inner loop visits every segment of the path: a segment missing
  from the current source mapping is passed over, a value that is no mapping is
  copied, a mapping gets a fresh empty node in the result and both sides descend.
  \<open>dstpath\<close> is the path of \<open>dstparent\<close> inside the result.
\<close>

fun RichGet_walk :: "'f document \<Rightarrow> string list \<Rightarrow> 'f document \<Rightarrow> string list
    \<Rightarrow> 'f document \<times> string list \<times> 'f document" where
  "RichGet_walk srcparent dstpath result [] = (srcparent, dstpath, result)"
| "RichGet_walk srcparent dstpath result (curkey # rest) =
     (case map_of srcparent curkey of
        None \<Rightarrow> RichGet_walk srcparent dstpath result rest
      | Some (VMap m) \<Rightarrow>
          RichGet_walk m (dstpath @ [curkey]) (assign_at result dstpath curkey (VMap [])) rest
      | Some obj \<Rightarrow>
          RichGet_walk srcparent dstpath (assign_at result dstpath curkey obj) rest)"

definition RichGet_field :: "'f document \<Rightarrow> 'f document \<Rightarrow> string \<Rightarrow> 'f document" where
  "RichGet_field d result field =
     (let pairs = Split dot field;
          (srcparent, dstpath, result1) = RichGet_walk d [] result pairs;
          k = last pairs
      in case map_of srcparent k of
           Some obj \<Rightarrow> assign_at result1 dstpath k obj
         | None \<Rightarrow> result1)"

definition RichGet :: "'f document \<Rightarrow> string list \<Rightarrow> 'f document" where
  "RichGet d field_list =
     (if field_list = [] then foldl (\<lambda>result (k, v). AList.update k v result) [] d
      else foldl (RichGet_field d) [] field_list)"

section \<open>Vocabulary of the proofs\<close>

text \<open>
  The value of a decimal digit string, the key of a batch operation, the puts of the
  two push loops, the store invariant (the values \<open>xs\<close> sit at the cursors from
  \<open>c\<close> on) and small concrete states for the examples.
\<close>

definition dec_val :: "string \<Rightarrow> nat" where
  "dec_val s = foldl (\<lambda>a c. 10 * a + digit_val c) 0 s"

fun op_key :: "batch_op \<Rightarrow> bytes" where
  "op_key (Put k v) = k"
| "op_key (Delete k) = k"

fun lputs :: "LevelList \<Rightarrow> 64 word \<Rightarrow> bytes list \<Rightarrow> batch_op list" where
  "lputs l c [] = []"
| "lputs l c (v # vs) = Put (idxKey l (c - 1)) v # lputs l (c - 1) vs"

fun rputs :: "LevelList \<Rightarrow> 64 word \<Rightarrow> bytes list \<Rightarrow> batch_op list" where
  "rputs l c [] = []"
| "rputs l c (v # vs) = Put (idxKey l (c + 1)) v # rputs l (c + 1) vs"

definition stored :: "LevelList \<Rightarrow> (bytes \<times> bytes) list \<Rightarrow> 64 word \<Rightarrow> bytes list \<Rightarrow> bool" where
  "stored l s c xs \<longleftrightarrow> (\<forall>j < length xs. map_of s (idxKey l (c + of_nat j)) = Some (xs ! j))"

definition example_list :: "64 word \<Rightarrow> 64 word \<Rightarrow> bool \<Rightarrow> LevelList" where
  "example_list s e t = \<lparr>entryKey = ''k'', start = s, end' = e, inTransaction = t\<rparr>"

definition example_engine :: "(bytes \<times> bytes) list \<Rightarrow> error option \<Rightarrow> LevelRedis" where
  "example_engine kvs w = \<lparr>db = kvs, read_err = None, write_err = w\<rparr>"


text \<open>
  The histories of a list: sequences of pushes and pops. \<open>exec_ops\<close> runs a history
  on the list code and collects what the pops return. The reference follows the
  spec's words: a deque as a plain list (left end first), with \<open>pushed\<close>, \<open>popped\<close> and
  the running length \<open>net_length\<close>. \<open>Inv\<close> ties a list and an engine to the reference.
\<close>

datatype list_op = OpLPush "bytes list" | OpRPush "bytes list" | OpLPop | OpRPop

fun exec_op :: "LevelList \<times> LevelRedis \<Rightarrow> list_op \<Rightarrow> (LevelList \<times> LevelRedis) \<times> Element option list" where
  "exec_op (l, r) (OpLPush vs) = (case LPush l r vs of (l', r', err) \<Rightarrow> ((l', r'), []))"
| "exec_op (l, r) (OpRPush vs) = (case RPush l r vs of (l', r', err) \<Rightarrow> ((l', r'), []))"
| "exec_op (l, r) OpLPop = (case LPop l r of (e, err, l', r') \<Rightarrow> ((l', r'), [e]))"
| "exec_op (l, r) OpRPop = (case RPop l r of (e, err, l', r') \<Rightarrow> ((l', r'), [e]))"

fun exec_ops :: "LevelList \<times> LevelRedis \<Rightarrow> list_op list \<Rightarrow> (LevelList \<times> LevelRedis) \<times> Element option list" where
  "exec_ops st [] = (st, [])"
| "exec_ops st (x # xs) =
     (case exec_op st x of
        (st1, out) \<Rightarrow> (case exec_ops st1 xs of (st2, outs) \<Rightarrow> (st2, out @ outs)))"

fun deque_op :: "bytes list \<Rightarrow> list_op \<Rightarrow> bytes list \<times> bytes option list" where
  "deque_op xs (OpLPush vs) = (rev vs @ xs, [])"
| "deque_op xs (OpRPush vs) = (xs @ vs, [])"
| "deque_op xs OpLPop = (case xs of [] \<Rightarrow> ([], [None]) | y # ys \<Rightarrow> (ys, [Some y]))"
| "deque_op xs OpRPop = (if xs = [] then ([], [None]) else (butlast xs, [Some (last xs)]))"

fun deque_ops :: "bytes list \<Rightarrow> list_op list \<Rightarrow> bytes list \<times> bytes option list" where
  "deque_ops xs [] = (xs, [])"
| "deque_ops xs (x # ops) =
     (case deque_op xs x of
        (xs1, out) \<Rightarrow> (case deque_ops xs1 ops of (xs2, outs) \<Rightarrow> (xs2, out @ outs)))"

fun pushed :: "list_op list \<Rightarrow> nat" where
  "pushed [] = 0"
| "pushed (OpLPush vs # ops) = length vs + pushed ops"
| "pushed (OpRPush vs # ops) = length vs + pushed ops"
| "pushed (x # ops) = pushed ops"

fun popped :: "list_op list \<Rightarrow> nat" where
  "popped [] = 0"
| "popped (OpLPop # ops) = 1 + popped ops"
| "popped (OpRPop # ops) = 1 + popped ops"
| "popped (x # ops) = popped ops"

fun net_length :: "nat \<Rightarrow> list_op list \<Rightarrow> nat" where
  "net_length n [] = n"
| "net_length n (OpLPush vs # ops) = net_length (n + length vs) ops"
| "net_length n (OpRPush vs # ops) = net_length (n + length vs) ops"
| "net_length n (x # ops) = net_length (n - 1) ops"

definition as_element :: "bytes option \<Rightarrow> Element option" where
  "as_element v = map_option (\<lambda>x. \<lparr>Value = Some x\<rparr>) v"

definition Inv :: "nat \<Rightarrow> LevelList \<Rightarrow> LevelRedis \<Rightarrow> bytes list \<Rightarrow> bool" where
  "Inv B l r xs \<longleftrightarrow>
     read_err r = None \<and> write_err r = None \<and> stored l (db r) (start l) xs
     \<and> sint (end' l) = sint (start l) + int (length xs) - 1
     \<and> - int B \<le> sint (start l) \<and> sint (end' l) < int B \<and> length xs \<le> B"

section \<open>Properties of the list\<close>

lemma infoKey_neq_idxKey: "infoKey l \<noteq> idxKey l' i"
  by (simp add: infoKey_def idxKey_def joinStringBytes_def KEY_PREFIX_def LIST_PREFIX_def)

lemma idxKey_neq_infoKey: "idxKey l' i \<noteq> infoKey l"
  using infoKey_neq_idxKey [of l l' i] by simp

lemma idxKey_entry [simp]:
  "idxKey (l\<lparr>start := s\<rparr>) i = idxKey l i"
  "idxKey (l\<lparr>end' := e\<rparr>) i = idxKey l i"
  "idxKey (l\<lparr>inTransaction := b\<rparr>) i = idxKey l i"
  by (simp_all add: idxKey_def)

lemma infoKey_entry [simp]:
  "infoKey (l\<lparr>start := s\<rparr>) = infoKey l"
  "infoKey (l\<lparr>end' := e\<rparr>) = infoKey l"
  "infoKey (l\<lparr>inTransaction := b\<rparr>) = infoKey l"
  by (simp_all add: infoKey_def)

lemma digit_cases: "n < 10 \<Longrightarrow> n \<in> {0, 1, 2, 3, 4, 5, 6, 7, 8, 9 :: nat}"
  by (simp, arith)

lemma digit_val_digit_char: "n < 10 \<Longrightarrow> digit_val (digit_char n) = n"
  using digit_cases [of n] by (auto simp: digit_val_def digit_char_def)

lemma digit_char_not_minus: "n < 10 \<Longrightarrow> digit_char n \<noteq> CHR ''-''"
  using digit_cases [of n] by (auto simp: digit_char_def)

lemma dec_val_nat_dec: "dec_val (nat_dec n) = n"
proof (induction n rule: nat_dec.induct)
  case (1 n)
  show ?case
  proof (cases "n < 10")
    case True
    then show ?thesis
      by (subst nat_dec.simps) (simp add: dec_val_def digit_val_digit_char)
  next
    case False
    with 1 have "dec_val (nat_dec (n div 10)) = n div 10" by simp
    with False show ?thesis
      by (subst nat_dec.simps) (simp add: dec_val_def digit_val_digit_char)
  qed
qed

lemma nat_dec_inj: "nat_dec a = nat_dec b \<Longrightarrow> a = b"
  by (metis dec_val_nat_dec)

lemma nat_dec_no_minus: "CHR ''-'' \<notin> set (nat_dec n)"
proof (induction n rule: nat_dec.induct)
  case (1 n)
  show ?case
  proof (cases "n < 10")
    case True
    then show ?thesis
      using digit_char_not_minus [of n] by (subst nat_dec.simps) auto
  next
    case False
    with 1 have "CHR ''-'' \<notin> set (nat_dec (n div 10))" by simp
    with False show ?thesis
      using digit_char_not_minus [of "n mod 10"] by (subst nat_dec.simps) auto
  qed
qed

lemma FormatInt_inj: "FormatInt a = FormatInt b \<Longrightarrow> a = b"
proof -
  assume eq: "FormatInt a = FormatInt b"
  have neg_pos: False if "sint x < 0" "\<not> sint y < 0" "FormatInt x = FormatInt y" for x y :: "64 word"
  proof -
    from that have "CHR ''-'' \<in> set (nat_dec (nat (sint y)))"
      by (simp add: FormatInt_def) (metis list.set_intros(1))
    then show False by (simp add: nat_dec_no_minus)
  qed
  have "sint a = sint b"
  proof (cases "sint a < 0")
    case True
    show ?thesis
    proof (cases "sint b < 0")
      case True
      with \<open>sint a < 0\<close> eq have "nat (- sint a) = nat (- sint b)"
        by (simp add: FormatInt_def nat_dec_inj)
      with True \<open>sint a < 0\<close> show ?thesis by simp
    next
      case False
      with True eq neg_pos show ?thesis by blast
    qed
  next
    case False
    show ?thesis
    proof (cases "sint b < 0")
      case True
      with False eq neg_pos [of b a] show ?thesis by simp
    next
      case bF: False
      with False eq have "nat (sint a) = nat (sint b)"
        by (simp add: FormatInt_def nat_dec_inj)
      with False bF show ?thesis by simp
    qed
  qed
  then show ?thesis by (rule signed_word_eqI)
qed

lemma idxKey_inj: "idxKey l a = idxKey l b \<Longrightarrow> a = b"
  by (simp add: idxKey_def joinStringBytes_def FormatInt_inj)

lemma of_nat_neq_minus_1_64: "j < 2 ^ 64 - 1 \<Longrightarrow> (of_nat j :: 64 word) \<noteq> - 1"
proof
  assume a: "j < 2 ^ 64 - 1" and e: "(of_nat j :: 64 word) = - 1"
  from e have "unat (of_nat j :: 64 word) = unat (- 1 :: 64 word)" by simp
  with a show False by (simp add: unat_of_nat take_bit_nat_eq_self unsigned_minus_1_eq_mask mask_eq_exp_minus_1)
qed

lemma of_nat_inj_64: "i < 2 ^ 64 \<Longrightarrow> j < 2 ^ 64 \<Longrightarrow> (of_nat i :: 64 word) = of_nat j \<Longrightarrow> i = j"
proof -
  assume a: "i < 2 ^ 64" "j < 2 ^ 64" and e: "(of_nat i :: 64 word) = of_nat j"
  from e have "unat (of_nat i :: 64 word) = unat (of_nat j :: 64 word)" by simp
  with a show ?thesis by (simp add: unat_of_nat take_bit_nat_eq_self)
qed

lemma sint_add_int: "- (2 ^ 63) \<le> sint (a::64 word) + k \<Longrightarrow> sint a + k < 2 ^ 63 \<Longrightarrow> sint (a + word_of_int k) = sint a + k"
proof -
  assume b: "- (2 ^ 63) \<le> sint a + k" "sint a + k < 2 ^ 63"
  have "a + word_of_int k = word_of_int (sint a + k)" by simp
  then have "sint (a + word_of_int k) = signed_take_bit 63 (sint a + k)"
    by (simp only: sint_sbintrunc') simp
  with b show ?thesis by (simp add: signed_take_bit_int_eq_self)
qed

lemma sint_sub_nat: "- (2 ^ 63) \<le> sint (a::64 word) - int k \<Longrightarrow> sint (a - of_nat k) = sint a - int k"
  using sint_add_int [of a "- int k"] sint_lt [of a] by simp

lemma sint_add_nat: "sint (a::64 word) + int k < 2 ^ 63 \<Longrightarrow> sint (a + of_nat k) = sint a + int k"
  using sint_add_int [of a "int k"] sint_ge [of a] by simp

lemma map_of_apply_op: "map_of (apply_op s bop) k = (if op_key bop = k then (case bop of Put k' v \<Rightarrow> Some v | Delete k' \<Rightarrow> None) else map_of s k)"
  by (cases bop) (auto simp: update_conv' delete_conv')

lemma map_of_foldl_other: "\<forall>bop \<in> set batch. op_key bop \<noteq> k \<Longrightarrow> map_of (foldl apply_op s batch) k = map_of s k"
  by (induction batch arbitrary: s) (simp_all add: map_of_apply_op)

lemma lputs_entry [simp]: "lputs (l\<lparr>start := s\<rparr>) c vs = lputs l c vs"
  by (induction vs arbitrary: c) simp_all

lemma rputs_entry [simp]: "rputs (l\<lparr>end' := s\<rparr>) c vs = rputs l c vs"
  by (induction vs arbitrary: c) simp_all

lemma lputs_keys: "bop \<in> set (lputs l c vs) \<Longrightarrow> \<exists>i. op_key bop = idxKey l i"
  by (induction vs arbitrary: c) auto

lemma rputs_keys: "bop \<in> set (rputs l c vs) \<Longrightarrow> \<exists>i. op_key bop = idxKey l i"
  by (induction vs arbitrary: c) auto

lemma LPush_loop_eq: "LPush_loop l batch vs = (l\<lparr>start := start l - of_nat (length vs)\<rparr>, batch @ lputs l (start l) vs)"
proof (induction vs arbitrary: l batch)
  case Nil
  then show ?case by simp
next
  case (Cons v vs)
  have "l\<lparr>start := start l - 1 - of_nat (length vs)\<rparr> = l\<lparr>start := start l - (1 + of_nat (length vs))\<rparr>"
    by (simp add: algebra_simps)
  with Cons show ?case by (simp add: Let_def)
qed

lemma RPush_loop_eq: "RPush_loop l batch vs = (l\<lparr>end' := end' l + of_nat (length vs)\<rparr>, batch @ rputs l (end' l) vs)"
proof (induction vs arbitrary: l batch)
  case Nil
  then show ?case by simp
next
  case (Cons v vs)
  have "l\<lparr>end' := end' l + 1 + of_nat (length vs)\<rparr> = l\<lparr>end' := end' l + (1 + of_nat (length vs))\<rparr>"
    by (simp add: algebra_simps)
  with Cons show ?case by (simp add: Let_def)
qed

lemma stored_lputs:
  "stored l s c xs \<Longrightarrow> length xs + length vs < 2 ^ 64 \<Longrightarrow>
   stored l (foldl apply_op s (lputs l c vs)) (c - of_nat (length vs)) (rev vs @ xs)"
proof (induction vs arbitrary: s c xs)
  case Nil
  then show ?case by simp
next
  case (Cons v vs)
  let ?s1 = "AList.update (idxKey l (c - 1)) v s"
  have s1: "stored l ?s1 (c - 1) (v # xs)"
    unfolding stored_def
  proof (intro allI impI)
    fix j assume j: "j < length (v # xs)"
    show "map_of ?s1 (idxKey l (c - 1 + of_nat j)) = Some ((v # xs) ! j)"
    proof (cases j)
      case 0
      then show ?thesis by (simp add: update_conv')
    next
      case (Suc j')
      with j Cons.prems(2) have "j' < 2 ^ 64 - 1" by simp
      then have "(of_nat j' :: 64 word) \<noteq> - 1" by (rule of_nat_neq_minus_1_64)
      then have "c + of_nat j' \<noteq> c - 1" by simp
      then have ne: "idxKey l (c + of_nat j') \<noteq> idxKey l (c - 1)" using idxKey_inj by blast
      from Suc j Cons.prems(1) have "map_of s (idxKey l (c + of_nat j')) = Some (xs ! j')"
        by (simp add: stored_def)
      with ne Suc show ?thesis by (simp add: update_conv')
    qed
  qed
  from Cons.prems(2) have "length (v # xs) + length vs < 2 ^ 64" by simp
  from Cons.IH [OF s1 this] show ?case by (simp add: algebra_simps)
qed

lemma stored_rputs:
  "stored l s c xs \<Longrightarrow> length xs + length vs < 2 ^ 64 \<Longrightarrow> e = c + of_nat (length xs) - 1 \<Longrightarrow>
   stored l (foldl apply_op s (rputs l e vs)) c (xs @ vs)"
proof (induction vs arbitrary: s e xs)
  case Nil
  then show ?case by simp
next
  case (Cons v vs)
  let ?s1 = "AList.update (idxKey l (e + 1)) v s"
  have e1: "e + 1 = c + of_nat (length xs)" using Cons.prems(3) by simp
  have s1: "stored l ?s1 c (xs @ [v])"
    unfolding stored_def
  proof (intro allI impI)
    fix j assume j: "j < length (xs @ [v])"
    show "map_of ?s1 (idxKey l (c + of_nat j)) = Some ((xs @ [v]) ! j)"
    proof (cases "j = length xs")
      case True
      then show ?thesis by (simp add: update_conv' e1)
    next
      case False
      with j have jl: "j < length xs" by simp
      with Cons.prems(2) have "(of_nat j :: 64 word) \<noteq> of_nat (length xs)"
        using of_nat_inj_64 [of j "length xs"] by auto
      then have "c + of_nat j \<noteq> e + 1" by (simp add: e1)
      then have ne: "idxKey l (c + of_nat j) \<noteq> idxKey l (e + 1)" using idxKey_inj by blast
      from jl Cons.prems(1) have "map_of s (idxKey l (c + of_nat j)) = Some (xs ! j)"
        by (simp add: stored_def)
      with ne jl show ?thesis by (simp add: update_conv' nth_append)
    qed
  qed
  from Cons.prems(2) have l2: "length (xs @ [v]) + length vs < 2 ^ 64" by simp
  have e2: "e + 1 = c + of_nat (length (xs @ [v])) - 1" by (simp add: e1)
  from Cons.IH [OF s1 l2 e2] show ?case by simp
qed





lemma word_idx_rev: "j < n \<Longrightarrow> (c::64 word) - of_nat n + of_nat (n - 1 - j) = c - 1 - of_nat j"
proof -
  assume "j < n"
  then have "int (n - 1 - j) = int n - 1 - int j" by simp
  then have "(of_nat (n - 1 - j) :: 64 word) = of_nat n - 1 - of_nat j"
    by (metis of_int_of_nat_eq of_int_diff of_int_1)
  then show ?thesis by simp
qed

lemma LPush_in_transaction:
  assumes "write_err r = None" "inTransaction l" "length vs < 2 ^ 64"
  shows "\<exists>r'. LPush l r vs = (l\<lparr>start := start l - of_nat (length vs)\<rparr>, r', None)
           \<and> r' = r\<lparr>db := foldl apply_op (db r) (snd (LPush_loop l [] vs))\<rparr>
           \<and> map_of (db r') (infoKey l) = map_of (db r) (infoKey l)
           \<and> (\<forall>j<length vs. map_of (db r') (idxKey l (start l - 1 - of_nat j)) = Some (vs ! j))"
proof -
  let ?s = "foldl apply_op (db r) (lputs l (start l) vs)"
  have eq: "LPush l r vs = (l\<lparr>start := start l - of_nat (length vs)\<rparr>, r\<lparr>db := ?s\<rparr>, None)"
    using assms by (simp add: LPush_def LPush_loop_eq db_Write_def Let_def)
  have info: "map_of ?s (infoKey l) = map_of (db r) (infoKey l)"
    by (rule map_of_foldl_other) (metis lputs_keys idxKey_neq_infoKey)
  have "stored l (db r) (start l) []" by (simp add: stored_def)
  then have st: "stored l ?s (start l - of_nat (length vs)) (rev vs @ [])"
    by (rule stored_lputs) (use assms in simp)
  have el: "map_of ?s (idxKey l (start l - 1 - of_nat j)) = Some (vs ! j)" if "j < length vs" for j
  proof -
    from that have j': "length vs - 1 - j < length (rev vs)" by simp
    with st have "map_of ?s (idxKey l (start l - of_nat (length vs) + of_nat (length vs - 1 - j)))
        = Some (rev vs ! (length vs - 1 - j))"
      by (simp add: stored_def)
    moreover from that have "rev vs ! (length vs - 1 - j) = vs ! j"
      by (simp add: rev_nth)
    moreover from that have "start l - of_nat (length vs) + of_nat (length vs - 1 - j) = start l - 1 - of_nat j"
      by (rule word_idx_rev)
    ultimately show ?thesis by (simp only:)
  qed
  from eq info el show ?thesis by (simp add: LPush_loop_eq)
qed

lemma RPush_in_transaction:
  assumes "write_err r = None" "inTransaction l" "length vs < 2 ^ 64"
  shows "\<exists>r'. RPush l r vs = (l\<lparr>end' := end' l + of_nat (length vs)\<rparr>, r', None)
           \<and> r' = r\<lparr>db := foldl apply_op (db r) (snd (RPush_loop l [] vs))\<rparr>
           \<and> map_of (db r') (infoKey l) = map_of (db r) (infoKey l)
           \<and> (\<forall>j<length vs. map_of (db r') (idxKey l (end' l + 1 + of_nat j)) = Some (vs ! j))"
proof -
  let ?s = "foldl apply_op (db r) (rputs l (end' l) vs)"
  have eq: "RPush l r vs = (l\<lparr>end' := end' l + of_nat (length vs)\<rparr>, r\<lparr>db := ?s\<rparr>, None)"
    using assms by (simp add: RPush_def RPush_loop_eq db_Write_def Let_def)
  have info: "map_of ?s (infoKey l) = map_of (db r) (infoKey l)"
    by (rule map_of_foldl_other) (metis rputs_keys idxKey_neq_infoKey)
  have "stored l (db r) (end' l + 1) []" by (simp add: stored_def)
  then have st: "stored l ?s (end' l + 1) ([] @ vs)"
    by (rule stored_rputs) (use assms in simp_all)
  from eq info st show ?thesis by (simp add: stored_def RPush_loop_eq)
qed

text \<open>
  C9. With a working engine: inside a transaction a push moves its cursor by the
  number of values, writes exactly the element puts of its loop (every value is then
  stored under its cursor's key) and leaves the info key as it was; \<open>Commit\<close> in a
  transaction closes it with one delete of the info key when the list is empty and
  one put of the cursor pair otherwise, and a further \<open>Commit\<close> changes nothing;
  \<open>Commit\<close> outside a transaction returns list and engine unchanged; \<open>BeginTransaction\<close>
  inside a transaction returns the list unchanged (it never touches the engine).
\<close>

theorem transaction_behaviour:
  assumes "write_err r = None"
  shows "(inTransaction l \<and> length vs < 2 ^ 64 \<longrightarrow>
            (\<exists>r'. LPush l r vs = (l\<lparr>start := start l - of_nat (length vs)\<rparr>, r', None)
                 \<and> r' = r\<lparr>db := foldl apply_op (db r) (snd (LPush_loop l [] vs))\<rparr>
                 \<and> map_of (db r') (infoKey l) = map_of (db r) (infoKey l)
                 \<and> (\<forall>j<length vs. map_of (db r') (idxKey l (start l - 1 - of_nat j)) = Some (vs ! j)))
          \<and> (\<exists>r'. RPush l r vs = (l\<lparr>end' := end' l + of_nat (length vs)\<rparr>, r', None)
                 \<and> r' = r\<lparr>db := foldl apply_op (db r) (snd (RPush_loop l [] vs))\<rparr>
                 \<and> map_of (db r') (infoKey l) = map_of (db r) (infoKey l)
                 \<and> (\<forall>j<length vs. map_of (db r') (idxKey l (end' l + 1 + of_nat j)) = Some (vs ! j))))
       \<and> (inTransaction l \<longrightarrow>
            (\<exists>r'. Commit l r = (l\<lparr>inTransaction := False\<rparr>, r')
                 \<and> r' = r\<lparr>db := (if len l = 0 then AList.delete (infoKey l) (db r)
                                   else AList.update (infoKey l) (infoValue l) (db r))\<rparr>
                 \<and> map_of (db r') (infoKey l) = (if len l = 0 then None else Some (infoValue l))
                 \<and> Commit (l\<lparr>inTransaction := False\<rparr>) r' = (l\<lparr>inTransaction := False\<rparr>, r')))
       \<and> (\<not> inTransaction l \<longrightarrow> Commit l r = (l, r))
       \<and> (inTransaction l \<longrightarrow> BeginTransaction l = l)"
proof -
  have push: "inTransaction l \<and> length vs < 2 ^ 64 \<longrightarrow>
            (\<exists>r'. LPush l r vs = (l\<lparr>start := start l - of_nat (length vs)\<rparr>, r', None)
                 \<and> r' = r\<lparr>db := foldl apply_op (db r) (snd (LPush_loop l [] vs))\<rparr>
                 \<and> map_of (db r') (infoKey l) = map_of (db r) (infoKey l)
                 \<and> (\<forall>j<length vs. map_of (db r') (idxKey l (start l - 1 - of_nat j)) = Some (vs ! j)))
          \<and> (\<exists>r'. RPush l r vs = (l\<lparr>end' := end' l + of_nat (length vs)\<rparr>, r', None)
                 \<and> r' = r\<lparr>db := foldl apply_op (db r) (snd (RPush_loop l [] vs))\<rparr>
                 \<and> map_of (db r') (infoKey l) = map_of (db r) (infoKey l)
                 \<and> (\<forall>j<length vs. map_of (db r') (idxKey l (end' l + 1 + of_nat j)) = Some (vs ! j)))"
    using LPush_in_transaction [OF assms] RPush_in_transaction [OF assms] by blast
  have commit: "inTransaction l \<longrightarrow>
            (\<exists>r'. Commit l r = (l\<lparr>inTransaction := False\<rparr>, r')
                 \<and> r' = r\<lparr>db := (if len l = 0 then AList.delete (infoKey l) (db r)
                                   else AList.update (infoKey l) (infoValue l) (db r))\<rparr>
                 \<and> map_of (db r') (infoKey l) = (if len l = 0 then None else Some (infoValue l))
                 \<and> Commit (l\<lparr>inTransaction := False\<rparr>) r' = (l\<lparr>inTransaction := False\<rparr>, r'))"
    using assms
    by (simp add: Commit_def db_Put_def db_Delete_def db_Write_def update_conv' delete_conv')
  have rest: "(\<not> inTransaction l \<longrightarrow> Commit l r = (l, r)) \<and> (inTransaction l \<longrightarrow> BeginTransaction l = l)"
    by (simp add: Commit_def BeginTransaction_def)
  from push commit rest show ?thesis by blast
qed

lemmas codec_defs = joinStringBytes_def KEY_PREFIX_def LIST_PREFIX_def ZSET_PREFIX_def SEP_LEFT_def
  SEP_RIGHT_def SEP_def LIST_SUFFIX_def ZSET_SUFFIX_def MAXBYTE_def

lemmas example_defs = example_list_def example_engine_def len_def word_sless_alt word_sle_eq
  idxKey_def infoKey_def infoValue_def FormatInt_def nat_dec.simps digit_char_def

text \<open>
  C6. With a working engine: a pop from either end of an empty list returns no
  element and no error and changes nothing; a pop of the last element returns the
  value read at the boundary cursor, resets the window to \<open>(0, - 1)\<close> and deletes the
  element key and the info key in one batch; any other pop returns the value read at
  the boundary cursor, moves that cursor inward by one and, in one batch, deletes the
  element key and rewrites the info key with the new cursor pair.
\<close>

theorem pop_behaviour:
  assumes "read_err r = None" and "write_err r = None"
  shows "(len l = 0 \<longrightarrow> LPop l r = (None, None, l, r) \<and> RPop l r = (None, None, l, r))
       \<and> (len l = 1 \<longrightarrow>
            (\<exists>r'. LPop l r = (Some \<lparr>Value = map_of (db r) (idxKey l (start l))\<rparr>, None,
                               l\<lparr>start := 0, end' := - 1\<rparr>, r')
                 \<and> r' = r\<lparr>db := foldl apply_op (db r)
                                   [Delete (idxKey l (start l)), Delete (infoKey l)]\<rparr>
                 \<and> map_of (db r') (infoKey l) = None
                 \<and> map_of (db r') (idxKey l (start l)) = None)
          \<and> (\<exists>r'. RPop l r = (Some \<lparr>Value = map_of (db r) (idxKey l (end' l))\<rparr>, None,
                               l\<lparr>start := 0, end' := - 1\<rparr>, r')
                 \<and> r' = r\<lparr>db := foldl apply_op (db r)
                                   [Delete (idxKey l (end' l)), Delete (infoKey l)]\<rparr>
                 \<and> map_of (db r') (infoKey l) = None
                 \<and> map_of (db r') (idxKey l (end' l)) = None))
       \<and> (len l \<noteq> 0 \<and> len l \<noteq> 1 \<longrightarrow>
            (\<exists>r'. LPop l r = (Some \<lparr>Value = map_of (db r) (idxKey l (start l))\<rparr>, None,
                               l\<lparr>start := start l + 1\<rparr>, r')
                 \<and> r' = r\<lparr>db := foldl apply_op (db r)
                                   [Delete (idxKey l (start l)),
                                    Put (infoKey l) (infoValue (l\<lparr>start := start l + 1\<rparr>))]\<rparr>
                 \<and> map_of (db r') (infoKey l) = Some (infoValue (l\<lparr>start := start l + 1\<rparr>))
                 \<and> map_of (db r') (idxKey l (start l)) = None)
          \<and> (\<exists>r'. RPop l r = (Some \<lparr>Value = map_of (db r) (idxKey l (end' l))\<rparr>, None,
                               l\<lparr>end' := end' l - 1\<rparr>, r')
                 \<and> r' = r\<lparr>db := foldl apply_op (db r)
                                   [Delete (idxKey l (end' l)),
                                    Put (infoKey l) (infoValue (l\<lparr>end' := end' l - 1\<rparr>))]\<rparr>
                 \<and> map_of (db r') (infoKey l) = Some (infoValue (l\<lparr>end' := end' l - 1\<rparr>))
                 \<and> map_of (db r') (idxKey l (end' l)) = None))"
  using assms
  by (simp add: LPop_def RPop_def db_Get_def db_Write_def Let_def update_conv' delete_conv'
      idxKey_neq_infoKey infoKey_neq_idxKey)

text \<open>The three cases of C6 on concrete lists of zero, one and two elements.\<close>

theorem pop_behaviour_witness:
  "LPop (example_list 0 (- 1) False) (example_engine [] None)
     = (None, None, example_list 0 (- 1) False, example_engine [] None)
   \<and> LPop (example_list 3 3 False) (example_engine [(''__list{k}idx:3'', ''a''), (''__key{k}:list'', ''3,3'')] None)
     = (Some \<lparr>Value = Some ''a''\<rparr>, None, example_list 0 (- 1) False, example_engine [] None)
   \<and> LPop (example_list 0 1 False)
        (example_engine [(''__list{k}idx:0'', ''a''), (''__list{k}idx:1'', ''b''), (''__key{k}:list'', ''0,1'')] None)
     = (Some \<lparr>Value = Some ''a''\<rparr>, None, example_list 1 1 False,
        example_engine [(''__list{k}idx:1'', ''b''), (''__key{k}:list'', ''1,1'')] None)
   \<and> RPop (example_list 0 1 False)
        (example_engine [(''__list{k}idx:0'', ''a''), (''__list{k}idx:1'', ''b''), (''__key{k}:list'', ''0,1'')] None)
     = (Some \<lparr>Value = Some ''b''\<rparr>, None, example_list 0 0 False,
        example_engine [(''__list{k}idx:0'', ''a''), (''__key{k}:list'', ''0,0'')] None)"
  using pop_behaviour [of "example_engine [] None" "example_list 0 (- 1) False"]
    pop_behaviour [of "example_engine [(''__list{k}idx:3'', ''a''), (''__key{k}:list'', ''3,3'')] None"
      "example_list 3 3 False"]
    pop_behaviour [of "example_engine [(''__list{k}idx:0'', ''a''), (''__list{k}idx:1'', ''b''), (''__key{k}:list'', ''0,1'')] None"
      "example_list 0 1 False"]
  by (auto simp: example_defs codec_defs)


text \<open>Two left pushes inside a transaction, then the commit.\<close>

theorem transaction_behaviour_witness:
  "inTransaction (example_list 0 (- 1) True)
   \<and> LPush (example_list 0 (- 1) True) (example_engine [] None) [''x'', ''y'']
       = (example_list (- 2) (- 1) True,
          example_engine [(''__list{k}idx:-1'', ''x''), (''__list{k}idx:-2'', ''y'')] None, None)
   \<and> Commit (example_list (- 2) (- 1) True)
         (example_engine [(''__list{k}idx:-1'', ''x''), (''__list{k}idx:-2'', ''y'')] None)
       = (example_list (- 2) (- 1) False,
          example_engine [(''__list{k}idx:-1'', ''x''), (''__list{k}idx:-2'', ''y''),
                          (''__key{k}:list'', ''-2,-1'')] None)
   \<and> Commit (example_list 0 (- 1) False) (example_engine [] None)
       = (example_list 0 (- 1) False, example_engine [] None)"
  using transaction_behaviour [of "example_engine [] None" "example_list 0 (- 1) True" "[''x'', ''y'']"]
    transaction_behaviour [of "example_engine [(''__list{k}idx:-1'', ''x''), (''__list{k}idx:-2'', ''y'')] None"
      "example_list (- 2) (- 1) True" "[]"]
    transaction_behaviour [of "example_engine [] None" "example_list 0 (- 1) False" "[]"]
  by (auto simp: example_defs codec_defs)

text \<open>
  C10. \<open>TrimLeft\<close> returns 0 as its removed-element count for every list, engine and
  count, whatever it deleted.
\<close>

theorem TrimLeft_returns_zero: "fst (TrimLeft l r count) = 0"
  by (simp add: TrimLeft_def Let_def split: prod.splits option.splits)

lemma of_nat_eq_0_64: "n < 2 ^ 64 \<Longrightarrow> (of_nat n :: 64 word) = 0 \<longleftrightarrow> n = 0"
  using of_nat_inj_64 [of n 0] by auto

lemma of_nat_eq_1_64: "n < 2 ^ 64 \<Longrightarrow> (of_nat n :: 64 word) = 1 \<longleftrightarrow> n = 1"
  using of_nat_inj_64 [of n 1] by auto

lemma Inv_end: "Inv B l r xs \<Longrightarrow> end' l = start l + of_nat (length xs) - 1"
proof -
  assume "Inv B l r xs"
  then have "sint (end' l) = sint (start l) + int (length xs) - 1" by (simp add: Inv_def)
  then have "(word_of_int (sint (end' l)) :: 64 word) = word_of_int (sint (start l) + int (length xs) - 1)"
    by simp
  then show ?thesis by simp
qed

lemma Inv_len: "Inv B l r xs \<Longrightarrow> len l = of_nat (length xs)"
proof -
  assume i: "Inv B l r xs"
  show ?thesis
  proof (cases "length xs = 0")
    case True
    with i have "sint (end' l) < sint (start l)" by (simp add: Inv_def)
    with True show ?thesis by (simp add: len_def word_sless_alt)
  next
    case False
    with i have "\<not> sint (end' l) < sint (start l)" by (simp add: Inv_def)
    then show ?thesis using Inv_end [OF i] by (simp add: len_def word_sless_alt)
  qed
qed

lemma Inv_len_0: "Inv B l r xs \<Longrightarrow> B < 2 ^ 63 \<Longrightarrow> len l = 0 \<longleftrightarrow> xs = []"
proof -
  assume i: "Inv B l r xs" and b: "B < 2 ^ 63"
  then have "length xs < 2 ^ 64" by (simp add: Inv_def)
  then show ?thesis using Inv_len [OF i] of_nat_eq_0_64 [of "length xs"] by simp
qed

lemma Inv_len_1: "Inv B l r xs \<Longrightarrow> B < 2 ^ 63 \<Longrightarrow> len l = 1 \<longleftrightarrow> length xs = 1"
proof -
  assume i: "Inv B l r xs" and b: "B < 2 ^ 63"
  then have "length xs < 2 ^ 64" by (simp add: Inv_def)
  then show ?thesis using Inv_len [OF i] of_nat_eq_1_64 [of "length xs"] by simp
qed

lemma stored_apply_other:
  "stored l s c xs \<Longrightarrow> \<forall>i. op_key bop \<noteq> idxKey l i \<Longrightarrow> stored l (apply_op s bop) c xs"
  by (simp add: stored_def map_of_apply_op)

lemma stored_entry [simp]:
  "stored (l\<lparr>start := a\<rparr>) s c xs = stored l s c xs"
  "stored (l\<lparr>end' := a\<rparr>) s c xs = stored l s c xs"
  by (simp_all add: stored_def)

lemma LPush_Inv:
  assumes i: "Inv B l r xs" and b: "B + length vs < 2 ^ 63"
  shows "\<exists>l' r'. LPush l r vs = (l', r', None) \<and> Inv (B + length vs) l' r' (rev vs @ xs)"
proof -
  let ?l1 = "l\<lparr>start := start l - of_nat (length vs)\<rparr>"
  let ?s1 = "foldl apply_op (db r) (lputs l (start l) vs)"
  let ?s2 = "if inTransaction l then ?s1 else apply_op ?s1 (Put (infoKey l) (infoValue ?l1))"
  from i have w: "write_err r = None" "read_err r = None" by (simp_all add: Inv_def)
  have eq: "LPush l r vs = (?l1, r\<lparr>db := ?s2\<rparr>, None)"
    using w by (simp add: LPush_def LPush_loop_eq db_Write_def Let_def)
  from i b have n: "length xs + length vs < 2 ^ 64" by (simp add: Inv_def)
  from i have "stored l (db r) (start l) xs" by (simp add: Inv_def)
  then have st1: "stored l ?s1 (start l - of_nat (length vs)) (rev vs @ xs)"
    using n by (rule stored_lputs)
  have st2: "stored l ?s2 (start l - of_nat (length vs)) (rev vs @ xs)"
    using st1 stored_apply_other [OF st1, of "Put (infoKey l) (infoValue ?l1)"]
    by (simp add: infoKey_neq_idxKey)
  from i b have "- (2 ^ 63) \<le> sint (start l) - int (length vs)" by (simp add: Inv_def)
  then have ss: "sint (start l - of_nat (length vs)) = sint (start l) - int (length vs)"
    by (rule sint_sub_nat)
  have "Inv (B + length vs) ?l1 (r\<lparr>db := ?s2\<rparr>) (rev vs @ xs)"
    using i st2 ss w by (simp add: Inv_def)
  with eq show ?thesis by blast
qed

lemma RPush_Inv:
  assumes i: "Inv B l r xs" and b: "B + length vs < 2 ^ 63"
  shows "\<exists>l' r'. RPush l r vs = (l', r', None) \<and> Inv (B + length vs) l' r' (xs @ vs)"
proof -
  let ?l1 = "l\<lparr>end' := end' l + of_nat (length vs)\<rparr>"
  let ?s1 = "foldl apply_op (db r) (rputs l (end' l) vs)"
  let ?s2 = "if inTransaction l then ?s1 else apply_op ?s1 (Put (infoKey l) (infoValue ?l1))"
  from i have w: "write_err r = None" "read_err r = None" by (simp_all add: Inv_def)
  have eq: "RPush l r vs = (?l1, r\<lparr>db := ?s2\<rparr>, None)"
    using w by (simp add: RPush_def RPush_loop_eq db_Write_def Let_def)
  from i b have n: "length xs + length vs < 2 ^ 64" by (simp add: Inv_def)
  from i have "stored l (db r) (start l) xs" by (simp add: Inv_def)
  then have st1: "stored l ?s1 (start l) (xs @ vs)"
    using n Inv_end [OF i] by (rule stored_rputs)
  have st2: "stored l ?s2 (start l) (xs @ vs)"
    using st1 stored_apply_other [OF st1, of "Put (infoKey l) (infoValue ?l1)"]
    by (simp add: infoKey_neq_idxKey)
  from i b have "sint (end' l) + int (length vs) < 2 ^ 63" by (simp add: Inv_def)
  then have ss: "sint (end' l + of_nat (length vs)) = sint (end' l) + int (length vs)"
    by (rule sint_add_nat)
  have "Inv (B + length vs) ?l1 (r\<lparr>db := ?s2\<rparr>) (xs @ vs)"
    using i st2 ss w by (simp add: Inv_def)
  with eq show ?thesis by blast
qed

lemma LPop_Inv:
  assumes i: "Inv B l r xs" and b: "B < 2 ^ 63"
  shows "\<exists>l' r'. LPop l r = (as_element (case xs of [] \<Rightarrow> None | y # ys \<Rightarrow> Some y), None, l', r')
                 \<and> Inv B l' r' (tl xs)"
proof (cases xs)
  case Nil
  with i b have "len l = 0" by (simp add: Inv_len_0)
  with Nil i show ?thesis by (simp add: LPop_def as_element_def)
next
  case (Cons y ys)
  from i have w: "write_err r = None" "read_err r = None" by (simp_all add: Inv_def)
  from i Cons b have l0: "len l \<noteq> 0" by (simp add: Inv_len_0)
  from i have st: "stored l (db r) (start l) xs" by (simp add: Inv_def)
  with Cons have rd: "map_of (db r) (idxKey l (start l)) = Some y"
    by (auto simp: stored_def dest: spec [of _ 0])
  show ?thesis
  proof (cases "ys = []")
    case True
    with Cons i b have l1: "len l = 1" by (simp add: Inv_len_1)
    let ?l1 = "l\<lparr>start := 0, end' := - 1\<rparr>"
    let ?s = "foldl apply_op (db r) [Delete (idxKey l (start l)), Delete (infoKey l)]"
    have eq: "LPop l r = (Some \<lparr>Value = Some y\<rparr>, None, ?l1, r\<lparr>db := ?s\<rparr>)"
      using w l0 l1 rd by (simp add: LPop_def db_Get_def db_Write_def Let_def)
    have "Inv B ?l1 (r\<lparr>db := ?s\<rparr>) []"
      using w by (simp add: Inv_def stored_def)
    with eq Cons True show ?thesis by (simp add: as_element_def)
  next
    case False
    with Cons have n2: "2 \<le> length xs" by (cases ys) simp_all
    with i b have l1: "len l \<noteq> 1" by (simp add: Inv_len_1)
    let ?l1 = "l\<lparr>start := start l + 1\<rparr>"
    let ?s = "foldl apply_op (db r) [Delete (idxKey l (start l)), Put (infoKey l) (infoValue ?l1)]"
    have eq: "LPop l r = (Some \<lparr>Value = Some y\<rparr>, None, ?l1, r\<lparr>db := ?s\<rparr>)"
      using w l0 l1 rd by (simp add: LPop_def db_Get_def db_Write_def Let_def)
    from i b have nb: "length xs < 2 ^ 64" by (simp add: Inv_def)
    have st': "stored l ?s (start l + 1) ys"
      unfolding stored_def
    proof (intro allI impI)
      fix j assume j: "j < length ys"
      with Cons nb have "Suc j < 2 ^ 64" by simp
      then have "(of_nat (Suc j) :: 64 word) \<noteq> 0" using of_nat_eq_0_64 [of "Suc j"] by simp
      then have "start l + 1 + of_nat j \<noteq> start l" by simp
      then have ne: "idxKey l (start l + 1 + of_nat j) \<noteq> idxKey l (start l)"
        using idxKey_inj by blast
      from j Cons have sj: "Suc j < length xs" by simp
      from st have "map_of (db r) (idxKey l (start l + of_nat (Suc j))) = Some (xs ! Suc j)"
        unfolding stored_def using sj by blast
      moreover have "start l + of_nat (Suc j) = start l + 1 + of_nat j" by simp
      moreover have "xs ! Suc j = ys ! j" using Cons by simp
      ultimately have "map_of (db r) (idxKey l (start l + 1 + of_nat j)) = Some (ys ! j)"
        by (simp only:)
      with ne show "map_of ?s (idxKey l (start l + 1 + of_nat j)) = Some (ys ! j)"
        by (simp add: update_conv' delete_conv' idxKey_neq_infoKey)
    qed
    from i n2 b have "sint (start l) + int 1 < 2 ^ 63" by (simp add: Inv_def)
    then have "sint (start l + of_nat 1) = sint (start l) + int 1" by (rule sint_add_nat)
    then have ss: "sint (start l + 1) = sint (start l) + 1" by simp
    have "Inv B ?l1 (r\<lparr>db := ?s\<rparr>) ys"
      using i st' ss w Cons by (simp add: Inv_def)
    with eq Cons show ?thesis by (simp add: as_element_def)
  qed
qed

lemma RPop_Inv:
  assumes i: "Inv B l r xs" and b: "B < 2 ^ 63"
  shows "\<exists>l' r'. RPop l r = (as_element (if xs = [] then None else Some (last xs)), None, l', r')
                 \<and> Inv B l' r' (butlast xs)"
proof (cases "xs = []")
  case True
  with i b have "len l = 0" by (simp add: Inv_len_0)
  with True i show ?thesis by (simp add: RPop_def as_element_def)
next
  case False
  from i have w: "write_err r = None" "read_err r = None" by (simp_all add: Inv_def)
  from i False b have l0: "len l \<noteq> 0" by (simp add: Inv_len_0)
  from i have st: "stored l (db r) (start l) xs" by (simp add: Inv_def)
  from False have lp: "length xs - 1 < length xs" by simp
  from False have "length xs = Suc (length xs - 1)" by simp
  then have "(of_nat (length xs) :: 64 word) = of_nat (length xs - 1) + 1"
    by (metis of_nat_Suc add.commute)
  then have e: "end' l = start l + of_nat (length xs - 1)"
    using Inv_end [OF i] by simp
  from st lp have "map_of (db r) (idxKey l (start l + of_nat (length xs - 1))) = Some (xs ! (length xs - 1))"
    unfolding stored_def by blast
  with e False have rd: "map_of (db r) (idxKey l (end' l)) = Some (last xs)"
    by (simp add: last_conv_nth)
  show ?thesis
  proof (cases "length xs = 1")
    case True
    with i b have l1: "len l = 1" by (simp add: Inv_len_1)
    let ?l1 = "l\<lparr>start := 0, end' := - 1\<rparr>"
    let ?s = "foldl apply_op (db r) [Delete (idxKey l (end' l)), Delete (infoKey l)]"
    have eq: "RPop l r = (Some \<lparr>Value = Some (last xs)\<rparr>, None, ?l1, r\<lparr>db := ?s\<rparr>)"
      using w l0 l1 rd by (simp add: RPop_def db_Get_def db_Write_def Let_def)
    from True have bl: "butlast xs = []" by (cases xs) simp_all
    have "Inv B ?l1 (r\<lparr>db := ?s\<rparr>) []"
      using w by (simp add: Inv_def stored_def)
    with eq False bl show ?thesis by (simp add: as_element_def)
  next
    case n1: False
    from False have "length xs \<noteq> 0" by simp
    with n1 have n2: "2 \<le> length xs" by arith
    from n1 i b have l1: "len l \<noteq> 1" by (simp add: Inv_len_1)
    let ?l1 = "l\<lparr>end' := end' l - 1\<rparr>"
    let ?s = "foldl apply_op (db r) [Delete (idxKey l (end' l)), Put (infoKey l) (infoValue ?l1)]"
    have eq: "RPop l r = (Some \<lparr>Value = Some (last xs)\<rparr>, None, ?l1, r\<lparr>db := ?s\<rparr>)"
      using w l0 l1 rd by (simp add: RPop_def db_Get_def db_Write_def Let_def)
    from i b have nb: "length xs < 2 ^ 64" by (simp add: Inv_def)
    have st': "stored l ?s (start l) (butlast xs)"
      unfolding stored_def
    proof (intro allI impI)
      fix j assume j: "j < length (butlast xs)"
      then have jl: "j < length xs - 1" by simp
      from jl nb have "j < 2 ^ 64" and "length xs - 1 < 2 ^ 64" and "j \<noteq> length xs - 1"
        by simp_all
      then have "(of_nat j :: 64 word) \<noteq> of_nat (length xs - 1)"
        using of_nat_inj_64 [of j "length xs - 1"] by blast
      then have "start l + of_nat j \<noteq> end' l" by (simp add: e)
      then have ne: "idxKey l (start l + of_nat j) \<noteq> idxKey l (end' l)"
        using idxKey_inj by blast
      from st jl have "map_of (db r) (idxKey l (start l + of_nat j)) = Some (xs ! j)"
        by (simp add: stored_def)
      with jl have "map_of (db r) (idxKey l (start l + of_nat j)) = Some (butlast xs ! j)"
        by (simp add: nth_butlast)
      with ne show "map_of ?s (idxKey l (start l + of_nat j)) = Some (butlast xs ! j)"
        by (simp add: update_conv' delete_conv' idxKey_neq_infoKey)
    qed
    from i n2 have "- (2 ^ 63) \<le> sint (end' l) - int 1"
      using sint_ge [of "start l"] by (simp add: Inv_def)
    then have "sint (end' l - of_nat 1) = sint (end' l) - int 1" by (rule sint_sub_nat)
    then have ss: "sint (end' l - 1) = sint (end' l) - 1" by simp
    have "Inv B ?l1 (r\<lparr>db := ?s\<rparr>) (butlast xs)"
      using i st' ss w n2 by (auto simp: Inv_def)
    with eq False show ?thesis by (simp add: as_element_def)
  qed
qed

lemma exec_ops_Inv:
  "Inv B l r xs \<Longrightarrow> B + pushed ops < 2 ^ 63 \<Longrightarrow>
   \<exists>l' r'. exec_ops (l, r) ops = ((l', r'), map as_element (snd (deque_ops xs ops)))
          \<and> Inv (B + pushed ops) l' r' (fst (deque_ops xs ops))"
proof (induction ops arbitrary: B l r xs)
  case Nil
  then show ?case by simp
next
  case (Cons x ops)
  show ?case
  proof (cases x)
    case (OpLPush vs)
    with Cons.prems have b: "B + length vs < 2 ^ 63" by simp
    from LPush_Inv [OF Cons.prems(1) b] obtain l1 r1 where
      s: "LPush l r vs = (l1, r1, None)" and i1: "Inv (B + length vs) l1 r1 (rev vs @ xs)" by blast
    from Cons.prems OpLPush have "B + length vs + pushed ops < 2 ^ 63" by simp
    from Cons.IH [OF i1 this] obtain l' r' where
      "exec_ops (l1, r1) ops = ((l', r'), map as_element (snd (deque_ops (rev vs @ xs) ops)))"
      "Inv (B + length vs + pushed ops) l' r' (fst (deque_ops (rev vs @ xs) ops))" by blast
    with s OpLPush show ?thesis by (simp add: add.assoc split_beta)
  next
    case (OpRPush vs)
    with Cons.prems have b: "B + length vs < 2 ^ 63" by simp
    from RPush_Inv [OF Cons.prems(1) b] obtain l1 r1 where
      s: "RPush l r vs = (l1, r1, None)" and i1: "Inv (B + length vs) l1 r1 (xs @ vs)" by blast
    from Cons.prems OpRPush have "B + length vs + pushed ops < 2 ^ 63" by simp
    from Cons.IH [OF i1 this] obtain l' r' where
      "exec_ops (l1, r1) ops = ((l', r'), map as_element (snd (deque_ops (xs @ vs) ops)))"
      "Inv (B + length vs + pushed ops) l' r' (fst (deque_ops (xs @ vs) ops))" by blast
    with s OpRPush show ?thesis by (simp add: add.assoc split_beta)
  next
    case OpLPop
    with Cons.prems have b: "B < 2 ^ 63" and b2: "B + pushed ops < 2 ^ 63" by simp_all
    from LPop_Inv [OF Cons.prems(1) b] obtain l1 r1 where
      s: "LPop l r = (as_element (case xs of [] \<Rightarrow> None | y # ys \<Rightarrow> Some y), None, l1, r1)"
      and i1: "Inv B l1 r1 (tl xs)" by blast
    from Cons.IH [OF i1 b2] obtain l' r' where
      "exec_ops (l1, r1) ops = ((l', r'), map as_element (snd (deque_ops (tl xs) ops)))"
      "Inv (B + pushed ops) l' r' (fst (deque_ops (tl xs) ops))" by blast
    with s OpLPop show ?thesis by (cases xs) (simp_all add: split_beta)
  next
    case OpRPop
    with Cons.prems have b: "B < 2 ^ 63" and b2: "B + pushed ops < 2 ^ 63" by simp_all
    from RPop_Inv [OF Cons.prems(1) b] obtain l1 r1 where
      s: "RPop l r = (as_element (if xs = [] then None else Some (last xs)), None, l1, r1)"
      and i1: "Inv B l1 r1 (butlast xs)" by blast
    from Cons.IH [OF i1 b2] obtain l' r' where
      "exec_ops (l1, r1) ops = ((l', r'), map as_element (snd (deque_ops (butlast xs) ops)))"
      "Inv (B + pushed ops) l' r' (fst (deque_ops (butlast xs) ops))" by blast
    with s OpRPop show ?thesis by (cases "xs = []") (simp_all add: split_beta)
  qed
qed

lemma deque_ops_length: "length (fst (deque_ops xs ops)) = net_length (length xs) ops"
proof (induction ops arbitrary: xs)
  case Nil
  then show ?case by simp
next
  case (Cons x ops)
  show ?case
  proof (cases x)
    case OpLPop
    with Cons show ?thesis by (cases xs) (simp_all add: split_beta)
  next
    case OpRPop
    with Cons show ?thesis by (cases "xs = []") (simp_all add: split_beta)
  qed (use Cons in \<open>simp_all add: split_beta add.commute\<close>)
qed

lemma deque_rpush_rpop: "deque_ops (xs @ vs) (replicate (length vs) OpRPop) = (xs, map Some (rev vs))"
proof (induction vs rule: rev_induct)
  case Nil
  then show ?case by simp
next
  case (snoc w ws)
  have "deque_op (xs @ ws @ [w]) OpRPop = (xs @ ws, [Some w])"
    by (simp add: butlast_append)
  with snoc show ?case by simp
qed

lemma deque_lpush_lpop: "deque_ops (rev vs @ xs) (replicate (length vs) OpLPop) = (xs, map Some (rev vs))"
proof (induction vs rule: rev_induct)
  case Nil
  then show ?case by simp
next
  case (snoc w ws)
  then show ?case by simp
qed

lemma NewLevelList_empty:
  "read_err r = None \<Longrightarrow> map_of (db r) (infoKey \<lparr>entryKey = ek, start = 0, end' = - 1, inTransaction = False\<rparr>) = None \<Longrightarrow>
   NewLevelList r ek = \<lparr>entryKey = ek, start = 0, end' = - 1, inTransaction = False\<rparr>"
  by (simp add: NewLevelList_def initInfo_def db_Get_def)

lemma Inv_empty: "read_err r = None \<Longrightarrow> write_err r = None \<Longrightarrow>
   Inv 0 \<lparr>entryKey = ek, start = 0, end' = - 1, inTransaction = t\<rparr> r []"
  by (simp add: Inv_def stored_def)

lemma sint_of_nat_63: "n < 2 ^ 63 \<Longrightarrow> sint (of_nat n :: 64 word) = int n"
  using sint_add_nat [of 0 n] by simp

lemma Inv_Index:
  assumes i: "Inv B l r xs" and b: "B < 2 ^ 63"
  shows "(\<forall>j<length xs. Index l r (of_nat j) = (Some \<lparr>Value = Some (xs ! j)\<rparr>, None))
       \<and> (\<forall>k. k <s 0 \<or> of_nat (length xs) \<le>s k \<longrightarrow> Index l r k = (None, None))
       \<and> unat (Len l) = length xs"
proof -
  from i b have n: "length xs < 2 ^ 63" by (simp add: Inv_def)
  have ln: "len l = of_nat (length xs)" by (rule Inv_len [OF i])
  from i have rd: "read_err r = None" and st: "stored l (db r) (start l) xs" by (simp_all add: Inv_def)
  have a: "Index l r (of_nat j) = (Some \<lparr>Value = Some (xs ! j)\<rparr>, None)" if j: "j < length xs" for j
  proof -
    from j n have "sint (of_nat j :: 64 word) = int j" by (simp add: sint_of_nat_63)
    moreover from n have "sint (of_nat (length xs) :: 64 word) = int (length xs)" by (rule sint_of_nat_63)
    ultimately have r: "\<not> (of_nat j :: 64 word) <s 0" "\<not> len l \<le>s of_nat j"
      using j by (simp_all add: ln word_sless_alt word_sle_eq)
    from st j have "map_of (db r) (idxKey l (start l + of_nat j)) = Some (xs ! j)"
      by (simp add: stored_def)
    with r rd show ?thesis by (simp add: Index_def db_Get_def Let_def)
  qed
  have c: "Index l r k = (None, None)" if "k <s 0 \<or> of_nat (length xs) \<le>s k" for k
    using that by (simp add: Index_def ln)
  from n have "unat (of_nat (length xs) :: 64 word) = length xs"
    by (simp add: unat_of_nat take_bit_nat_eq_self)
  then have d: "unat (Len l) = length xs" by (simp add: Len_def ln)
  from a c d show ?thesis by blast
qed

lemma exec_from_new:
  assumes "pushed ops < 2 ^ 63" "read_err r = None" "write_err r = None"
    "map_of (db r) (infoKey \<lparr>entryKey = ek, start = 0, end' = - 1, inTransaction = False\<rparr>) = None"
  shows "\<exists>l' r'. exec_ops (NewLevelList r ek, r) ops = ((l', r'), map as_element (snd (deque_ops [] ops)))
          \<and> Inv (pushed ops) l' r' (fst (deque_ops [] ops))"
proof -
  have n: "NewLevelList r ek = \<lparr>entryKey = ek, start = 0, end' = - 1, inTransaction = False\<rparr>"
    using assms by (simp add: NewLevelList_empty)
  have "Inv 0 \<lparr>entryKey = ek, start = 0, end' = - 1, inTransaction = False\<rparr> r []"
    using assms by (simp add: Inv_empty)
  from exec_ops_Inv [OF this, of ops] assms(1) n show ?thesis by simp
qed

text \<open>
  C7 (as amended). From a new list whose info key is absent, on a working engine,
  for every sequence of left and right pushes and pops that pushes fewer than
  \<open>2^63\<close> values: every pop returns what the reference deque returns (the value at
  that end, or nothing when the deque is empty); the final length is the running
  count, which goes up by one for each pushed value and down by one for each pop of a
  non-empty list; and a right push followed by as many right pops, or a left push
  followed by as many left pops, returns the pushed values in reverse push order.
\<close>

theorem deque_behaviour:
  assumes "pushed ops < 2 ^ 63" and "read_err r = None" and "write_err r = None"
    and "map_of (db r) (infoKey \<lparr>entryKey = ek, start = 0, end' = - 1, inTransaction = False\<rparr>) = None"
  shows "snd (exec_ops (NewLevelList r ek, r) ops) = map as_element (snd (deque_ops [] ops))
       \<and> unat (Len (fst (fst (exec_ops (NewLevelList r ek, r) ops)))) = net_length 0 ops
       \<and> (ops = OpRPush vs # replicate (length vs) OpRPop \<longrightarrow>
            snd (exec_ops (NewLevelList r ek, r) ops) = map (\<lambda>v. Some \<lparr>Value = Some v\<rparr>) (rev vs))
       \<and> (ops = OpLPush vs # replicate (length vs) OpLPop \<longrightarrow>
            snd (exec_ops (NewLevelList r ek, r) ops) = map (\<lambda>v. Some \<lparr>Value = Some v\<rparr>) (rev vs))"
proof -
  from exec_from_new [OF assms] obtain l' r' where
    e: "exec_ops (NewLevelList r ek, r) ops = ((l', r'), map as_element (snd (deque_ops [] ops)))"
    and i: "Inv (pushed ops) l' r' (fst (deque_ops [] ops))" by blast
  have a: "snd (exec_ops (NewLevelList r ek, r) ops) = map as_element (snd (deque_ops [] ops))"
    using e by simp
  from Inv_Index [OF i assms(1)] have "unat (Len l') = length (fst (deque_ops [] ops))" by blast
  with e have b: "unat (Len (fst (fst (exec_ops (NewLevelList r ek, r) ops)))) = net_length 0 ops"
    by (simp add: deque_ops_length)
  have c: "ops = OpRPush vs # replicate (length vs) OpRPop \<longrightarrow>
            snd (exec_ops (NewLevelList r ek, r) ops) = map (\<lambda>v. Some \<lparr>Value = Some v\<rparr>) (rev vs)"
    using a deque_rpush_rpop [of "[]" vs] by (auto simp: as_element_def)
  have d: "ops = OpLPush vs # replicate (length vs) OpLPop \<longrightarrow>
            snd (exec_ops (NewLevelList r ek, r) ops) = map (\<lambda>v. Some \<lparr>Value = Some v\<rparr>) (rev vs)"
    using a deque_lpush_lpop [of vs "[]"] by (auto simp: as_element_def)
  from a b c d show ?thesis by blast
qed

text \<open>
  C8. For every list, engine and index \<open>i\<close>: when \<open>i < 0\<close> or \<open>i \<ge> len\<close> (as signed
  numbers) \<open>Index\<close> returns no element and no error; otherwise it is the point read at
  the key of cursor \<open>start + i\<close> (the read's error, or the element read). And on the
  list that a history of pushes and pops builds from a new list (a working engine,
  fewer than \<open>2^63\<close> pushed values), \<open>Index j\<close> returns for every position \<open>j\<close> below
  the length the value that the replay of the history on the reference deque has
  at position \<open>j\<close>, and nothing outside that range.
\<close>

theorem Index_behaviour:
  "(i <s 0 \<or> len l \<le>s i \<longrightarrow> Index l r i = (None, None))
   \<and> (\<not> (i <s 0 \<or> len l \<le>s i) \<longrightarrow>
        Index l r i = (case read_err r of
                         Some e \<Rightarrow> (None, Some e)
                       | None \<Rightarrow> (Some \<lparr>Value = map_of (db r) (idxKey l (start l + i))\<rparr>, None)))
   \<and> (pushed ops < 2 ^ 63 \<and> read_err r0 = None \<and> write_err r0 = None
        \<and> map_of (db r0) (infoKey \<lparr>entryKey = ek, start = 0, end' = - 1, inTransaction = False\<rparr>) = None \<longrightarrow>
        (case fst (exec_ops (NewLevelList r0 ek, r0) ops) of
           (l', r') \<Rightarrow>
             (\<forall>j<length (fst (deque_ops [] ops)).
                 Index l' r' (of_nat j) = (Some \<lparr>Value = Some (fst (deque_ops [] ops) ! j)\<rparr>, None))
             \<and> (\<forall>k. k <s 0 \<or> of_nat (length (fst (deque_ops [] ops))) \<le>s k \<longrightarrow>
                    Index l' r' k = (None, None))))"
  (is "?A \<and> ?B \<and> (?H \<longrightarrow> ?C)")
proof -
  have a: ?A
    by (simp add: Index_def)
  have b: ?B
    by (simp add: Index_def db_Get_def Let_def split: option.splits)
  have c: "?H \<longrightarrow> ?C"
  proof (rule impI)
    assume H: ?H
    then have h: "pushed ops < 2 ^ 63" "read_err r0 = None" "write_err r0 = None"
      "map_of (db r0) (infoKey \<lparr>entryKey = ek, start = 0, end' = - 1, inTransaction = False\<rparr>) = None"
      by blast+
    from exec_from_new [OF h] obtain l' r' where
      e: "exec_ops (NewLevelList r0 ek, r0) ops = ((l', r'), map as_element (snd (deque_ops [] ops)))"
      and i: "Inv (pushed ops) l' r' (fst (deque_ops [] ops))" by blast
    from e have f: "fst (exec_ops (NewLevelList r0 ek, r0) ops) = (l', r')" by simp
    have t: "(\<forall>j<length (fst (deque_ops [] ops)).
                 Index l' r' (of_nat j) = (Some \<lparr>Value = Some (fst (deque_ops [] ops) ! j)\<rparr>, None))
             \<and> (\<forall>k. k <s 0 \<or> of_nat (length (fst (deque_ops [] ops))) \<le>s k \<longrightarrow>
                    Index l' r' k = (None, None))"
      by (rule conjI [OF Inv_Index [OF i h(1), THEN conjunct1]
                     Inv_Index [OF i h(1), THEN conjunct2, THEN conjunct1]])
    show ?C unfolding f by (simp only: prod.case) (rule t)
  qed
  show ?thesis by (rule conjI [OF a conjI [OF b c]])
qed

text \<open>A mixed sequence, and the two reverse-order runs, on the empty engine.\<close>

theorem deque_behaviour_witness:
  "snd (exec_ops (NewLevelList (example_engine [] None) ''k'', example_engine [] None)
          [OpRPush [''a'', ''b''], OpLPush [''c''], OpRPop, OpLPop, OpLPop, OpLPop, OpRPush [''d'']])
     = [Some \<lparr>Value = Some ''b''\<rparr>, Some \<lparr>Value = Some ''c''\<rparr>, Some \<lparr>Value = Some ''a''\<rparr>, None]
   \<and> unat (Len (fst (fst (exec_ops (NewLevelList (example_engine [] None) ''k'', example_engine [] None)
          [OpRPush [''a'', ''b''], OpLPush [''c''], OpRPop, OpLPop, OpLPop, OpLPop, OpRPush [''d'']])))) = 1
   \<and> snd (exec_ops (NewLevelList (example_engine [] None) ''k'', example_engine [] None)
          [OpRPush [''a'', ''b''], OpRPop, OpRPop])
     = [Some \<lparr>Value = Some ''b''\<rparr>, Some \<lparr>Value = Some ''a''\<rparr>]
   \<and> snd (exec_ops (NewLevelList (example_engine [] None) ''k'', example_engine [] None)
          [OpLPush [''a'', ''b''], OpLPop, OpLPop])
     = [Some \<lparr>Value = Some ''b''\<rparr>, Some \<lparr>Value = Some ''a''\<rparr>]"
  using deque_behaviour [of "[OpRPush [''a'', ''b''], OpLPush [''c''], OpRPop, OpLPop, OpLPop, OpLPop, OpRPush [''d'']]"
      "example_engine [] None" "''k''" "[]"]
    deque_behaviour [of "[OpRPush [''a'', ''b''], OpRPop, OpRPop]" "example_engine [] None" "''k''" "[''a'', ''b'']"]
    deque_behaviour [of "[OpLPush [''a'', ''b''], OpLPop, OpLPop]" "example_engine [] None" "''k''" "[''a'', ''b'']"]
  by (simp add: example_engine_def as_element_def)

text \<open>
  C7 as stated fails: after a pop of the empty list and one push the length is 1,
  where pushes minus pops, clamped at 0, is 0.
\<close>

theorem pop_before_push_length:
  "unat (Len (fst (fst (exec_ops (NewLevelList (example_engine [] None) ''k'', example_engine [] None)
          [OpLPop, OpRPush [''a'']])))) = 1
   \<and> max 0 (int (pushed [OpLPop, OpRPush [''a'']]) - int (popped [OpLPop, OpRPush [''a'']])) = 0"
  by (simp add: NewLevelList_def initInfo_def db_Get_def example_engine_def LPop_def RPush_def
      db_Write_def len_def Len_def word_sless_alt Let_def)

text \<open>Out-of-range and in-range reads on a two-element list, and after a short history.\<close>

theorem Index_behaviour_witness:
  "Index (example_list 0 1 False) (example_engine [(''__list{k}idx:0'', ''a''), (''__list{k}idx:1'', ''b'')] None) 2
     = (None, None)
   \<and> Index (example_list 0 1 False) (example_engine [(''__list{k}idx:0'', ''a''), (''__list{k}idx:1'', ''b'')] None) (- 1)
     = (None, None)
   \<and> Index (example_list 0 1 False) (example_engine [(''__list{k}idx:0'', ''a''), (''__list{k}idx:1'', ''b'')] None) 1
     = (Some \<lparr>Value = Some ''b''\<rparr>, None)
   \<and> (case fst (exec_ops (NewLevelList (example_engine [] None) ''k'', example_engine [] None)
                  [OpRPush [''a'', ''b''], OpLPush [''c'']]) of
         (l', r') \<Rightarrow> Index l' r' 0 = (Some \<lparr>Value = Some ''c''\<rparr>, None)
                   \<and> Index l' r' 2 = (Some \<lparr>Value = Some ''b''\<rparr>, None)
                   \<and> Index l' r' 3 = (None, None))"
proof -
  let ?r = "example_engine [(''__list{k}idx:0'', ''a''), (''__list{k}idx:1'', ''b'')] None"
  let ?ops = "[OpRPush [''a'', ''b''], OpLPush [''c'']]"
  have h: "pushed ?ops < 2 ^ 63 \<and> read_err (example_engine [] None) = None
      \<and> write_err (example_engine [] None) = None
      \<and> map_of (db (example_engine [] None))
           (infoKey \<lparr>entryKey = ''k'', start = 0, end' = - 1, inTransaction = False\<rparr>) = None"
    by (simp add: example_engine_def)
  have d: "fst (deque_ops [] ?ops) = [''c'', ''a'', ''b'']" by simp
  obtain l' r' where e: "fst (exec_ops (NewLevelList (example_engine [] None) ''k'', example_engine [] None) ?ops) = (l', r')"
    by (cases "fst (exec_ops (NewLevelList (example_engine [] None) ''k'', example_engine [] None) ?ops)")
  from Index_behaviour [of 0 "example_list 0 1 False" ?r ?ops "example_engine [] None" "''k''"] h e d
  have g: "(\<forall>j<3. Index l' r' (of_nat j) = (Some \<lparr>Value = Some ([''c'', ''a'', ''b''] ! j)\<rparr>, None))
        \<and> (\<forall>k. k <s 0 \<or> of_nat 3 \<le>s k \<longrightarrow> Index l' r' k = (None, None))"
    by simp
  from g have g1: "\<And>j. j < 3 \<Longrightarrow> Index l' r' (of_nat j) = (Some \<lparr>Value = Some ([''c'', ''a'', ''b''] ! j)\<rparr>, None)"
    and g2: "\<And>k. of_nat 3 \<le>s k \<Longrightarrow> Index l' r' k = (None, None)"
    by blast+
  have "Index l' r' (of_nat 0) = (Some \<lparr>Value = Some ([''c'', ''a'', ''b''] ! 0)\<rparr>, None)"
    by (rule g1) simp
  moreover have "Index l' r' (of_nat 2) = (Some \<lparr>Value = Some ([''c'', ''a'', ''b''] ! 2)\<rparr>, None)"
    by (rule g1) simp
  moreover have "Index l' r' 3 = (None, None)"
    by (rule g2) (simp add: word_sle_eq)
  ultimately have p3: "Index l' r' 0 = (Some \<lparr>Value = Some ''c''\<rparr>, None)
        \<and> Index l' r' 2 = (Some \<lparr>Value = Some ''b''\<rparr>, None) \<and> Index l' r' 3 = (None, None)"
    by simp
  have p1: "Index (example_list 0 1 False) ?r 2 = (None, None)"
    using Index_behaviour [of 2 "example_list 0 1 False" ?r "[]" ?r "''k''"]
    by (simp add: example_defs word_sle_eq)
  have p2: "Index (example_list 0 1 False) ?r (- 1) = (None, None)"
    using Index_behaviour [of "- 1" "example_list 0 1 False" ?r "[]" ?r "''k''"]
    by (simp add: example_defs word_sle_eq)
  have p4: "Index (example_list 0 1 False) ?r 1 = (Some \<lparr>Value = Some ''b''\<rparr>, None)"
    using Index_behaviour [of 1 "example_list 0 1 False" ?r "[]" ?r "''k''"]
    by (simp add: example_defs codec_defs word_sle_eq)
  from p1 p2 p4 p3 e show ?thesis by simp
qed

section \<open>Properties of the sorted set\<close>

lemma zsetKey_neq_memberKey: "zsetKey z \<noteq> memberKey z' m"
  by (simp add: zsetKey_def memberKey_def codec_defs)

lemma zsetKey_neq_scoreKey: "zsetKey z \<noteq> scoreKey z' m sc"
  by (simp add: zsetKey_def scoreKey_def codec_defs)

lemma memberKey_neq_scoreKey: "memberKey z m \<noteq> scoreKey z m' sc"
  by (simp add: memberKey_def scoreKey_def codec_defs)

lemma Enumerate_keys: "(k, v) \<in> set (Enumerate r lo hi d) \<Longrightarrow> lo \<le> k \<and> k \<le> hi"
  by (cases d) (auto simp: Enumerate_def)

lemma Drop_range_misses_member:
  "\<not> memberKey z m \<le> joinStringBytes [KEY_PREFIX, SEP_LEFT, key z, SEP_RIGHT] @ [MAXBYTE]"
  by (simp add: memberKey_def codec_defs)

lemma Drop_range_misses_score:
  "\<not> scoreKey z m sc \<le> joinStringBytes [KEY_PREFIX, SEP_LEFT, key z, SEP_RIGHT] @ [MAXBYTE]"
  by (simp add: scoreKey_def codec_defs)

lemma Drop_keeps:
  assumes "\<not> k \<le> joinStringBytes [KEY_PREFIX, SEP_LEFT, key z, SEP_RIGHT] @ [MAXBYTE]" "k \<noteq> zsetKey z"
  shows "map_of (db (snd (snd (LevelZSet_Drop z r)))) k = map_of (db r) k"
proof (cases "totalCount z = 0")
  case True
  then show ?thesis by (simp add: LevelZSet_Drop_def)
next
  case False
  let ?lo = "joinStringBytes [KEY_PREFIX, SEP_LEFT, key z, SEP_RIGHT]"
  let ?batch = "map (\<lambda>(k, v). Delete k) (Enumerate r ?lo (?lo @ [MAXBYTE]) IteratorForward) @ [Delete (zsetKey z)]"
  have "\<forall>bop \<in> set ?batch. op_key bop \<noteq> k"
    using assms Enumerate_keys [of _ _ r ?lo "?lo @ [MAXBYTE]" IteratorForward] by auto
  then have "map_of (foldl apply_op (db r) ?batch) k = map_of (db r) k"
    by (rule map_of_foldl_other)
  with False show ?thesis
    by (cases "write_err r") (simp_all add: LevelZSet_Drop_def Let_def db_Write_def)
qed

lemmas zset_defs = Add_def initOnce_def NewLevelZSet_def db_Get_def db_Write_def zsetKey_def zsetValue_def
  memberKey_def scoreKey_def scoreKeyPrefix_def LevelZSet_Drop_def Enumerate_def member_entries_def
  score_entries_def FormatInt_def nat_dec.simps digit_char_def Score_def IncrBy_def Remove_def

text \<open>
  C1. \<open>Drop\<close> of a sorted set leaves every member-index entry and every score-index
  entry of the structure as it was, on every engine state: its scan covers the keys
  under \<open>KEY_PREFIX\<close>, which the index keys (under \<open>ZSET_PREFIX\<close>) are not among. On the
  set \<open>k\<close> with the one member \<open>a\<close> of score \<open>5\<close>, \<open>Drop\<close> deletes the count record and
  resets the cached count, and a scan of the member range and of the score range
  still finds one entry each.
\<close>

theorem LevelZSet_Drop_keeps_index_entries:
  "map_of (db (snd (snd (LevelZSet_Drop z r)))) (memberKey z member) = map_of (db r) (memberKey z member)
   \<and> map_of (db (snd (snd (LevelZSet_Drop z r)))) (scoreKey z member score)
       = map_of (db r) (scoreKey z member score)
   \<and> LevelZSet_Drop \<lparr>key = ''k'', totalCount = 1\<rparr>
        (example_engine [(''__zset{k}m#a'', ''5''), (''__zset{k}s#5#a'', ''''), (''__key{k}:zset'', ''1'')] None)
      = (True, \<lparr>key = ''k'', totalCount = 0\<rparr>,
         example_engine [(''__zset{k}m#a'', ''5''), (''__zset{k}s#5#a'', '''')] None)
   \<and> member_entries \<lparr>key = ''k'', totalCount = 0\<rparr>
        (example_engine [(''__zset{k}m#a'', ''5''), (''__zset{k}s#5#a'', '''')] None)
      = [(''__zset{k}m#a'', ''5'')]
   \<and> score_entries \<lparr>key = ''k'', totalCount = 0\<rparr>
        (example_engine [(''__zset{k}m#a'', ''5''), (''__zset{k}s#5#a'', '''')] None)
      = [(''__zset{k}s#5#a'', '''')]"
proof -
  have a: "map_of (db (snd (snd (LevelZSet_Drop z r)))) (memberKey z member) = map_of (db r) (memberKey z member)"
    by (rule Drop_keeps) (simp_all add: Drop_range_misses_member zsetKey_neq_memberKey [symmetric])
  have b: "map_of (db (snd (snd (LevelZSet_Drop z r)))) (scoreKey z member score)
       = map_of (db r) (scoreKey z member score)"
    by (rule Drop_keeps) (simp_all add: Drop_range_misses_score zsetKey_neq_scoreKey [symmetric])
  have c: "LevelZSet_Drop \<lparr>key = ''k'', totalCount = 1\<rparr>
        (example_engine [(''__zset{k}m#a'', ''5''), (''__zset{k}s#5#a'', ''''), (''__key{k}:zset'', ''1'')] None)
      = (True, \<lparr>key = ''k'', totalCount = 0\<rparr>,
         example_engine [(''__zset{k}m#a'', ''5''), (''__zset{k}s#5#a'', '''')] None)"
    by (simp add: zset_defs codec_defs example_engine_def Let_def)
  have d: "member_entries \<lparr>key = ''k'', totalCount = 0\<rparr>
        (example_engine [(''__zset{k}m#a'', ''5''), (''__zset{k}s#5#a'', '''')] None)
      = [(''__zset{k}m#a'', ''5'')]"
    by (simp add: zset_defs codec_defs example_engine_def Let_def)
  have e: "score_entries \<lparr>key = ''k'', totalCount = 0\<rparr>
        (example_engine [(''__zset{k}m#a'', ''5''), (''__zset{k}s#5#a'', '''')] None)
      = [(''__zset{k}s#5#a'', '''')]"
    by (simp add: zset_defs codec_defs example_engine_def Let_def)
  from a b c d e show ?thesis by blast
qed

lemma add_then_state:
  "Add (NewLevelZSet ''k'') (example_engine [] None) [''5'', ''a'']
   = Some (1, \<lparr>key = ''k'', totalCount = 1\<rparr>,
       example_engine [(''__zset{k}m#a'', ''5''), (''__zset{k}s#5#a'', ''''), (''__key{k}:zset'', ''1'')] None)"
  by (simp add: zset_defs codec_defs example_engine_def Let_def)

text \<open>
  C2. \<open>IncrBy\<close> never changes the cached count beyond loading it and never writes
  the count record. On the empty set \<open>k\<close> it creates the member \<open>a\<close> with both index
  entries, while the cached count stays 0 and no count record exists.
\<close>

theorem IncrBy_new_member_not_counted:
  "totalCount (fst (snd (IncrBy i2b b2i z r member incr))) = totalCount (initOnce z r)
   \<and> map_of (db (snd (snd (IncrBy i2b b2i z r member incr)))) (zsetKey z) = map_of (db r) (zsetKey z)
   \<and> IncrBy i2b b2i (NewLevelZSet ''k'') (example_engine [] None) ''a'' 5
      = (i2b 5, \<lparr>key = ''k'', totalCount = 0\<rparr>,
         example_engine [(''__zset{k}m#a'', i2b 5), (''__zset{k}s#'' @ i2b 5 @ ''#a'', '''')] None)
   \<and> Score \<lparr>key = ''k'', totalCount = 0\<rparr>
        (example_engine [(''__zset{k}m#a'', i2b 5), (''__zset{k}s#'' @ i2b 5 @ ''#a'', '''')] None) ''a''
      = Some (i2b 5)"
proof -
  have iz [simp]: "zsetKey (initOnce z r) = zsetKey z" "key (initOnce z r) = key z"
    by (simp_all add: initOnce_def zsetKey_def split: option.splits)
  have a: "totalCount (fst (snd (IncrBy i2b b2i z r member incr))) = totalCount (initOnce z r)"
    by (simp add: IncrBy_def Let_def split: option.splits prod.splits)
  have b: "map_of (db (snd (snd (IncrBy i2b b2i z r member incr)))) (zsetKey z) = map_of (db r) (zsetKey z)"
    by (cases "write_err r")
       (simp_all add: IncrBy_def Let_def db_Write_def update_conv' delete_conv'
          zsetKey_neq_memberKey zsetKey_neq_scoreKey
          zsetKey_neq_memberKey [symmetric] zsetKey_neq_scoreKey [symmetric] split: option.splits)
  have c: "IncrBy i2b b2i (NewLevelZSet ''k'') (example_engine [] None) ''a'' 5
      = (i2b 5, \<lparr>key = ''k'', totalCount = 0\<rparr>,
         example_engine [(''__zset{k}m#a'', i2b 5), (''__zset{k}s#'' @ i2b 5 @ ''#a'', '''')] None)"
    by (simp add: zset_defs codec_defs example_engine_def Let_def)
  have d: "Score \<lparr>key = ''k'', totalCount = 0\<rparr>
        (example_engine [(''__zset{k}m#a'', i2b 5), (''__zset{k}s#'' @ i2b 5 @ ''#a'', '''')] None) ''a''
      = Some (i2b 5)"
    by (simp add: zset_defs codec_defs example_engine_def Let_def)
  from a b c d show ?thesis by blast
qed

section \<open>Properties of the document\<close>

text \<open>
  C4. On the document \<open>{b: 1}\<close> the path \<open>x.b\<close>, whose first segment is missing,
  still contributes \<open>b\<close> to the result of \<open>RichGet\<close>, where \<open>findElement\<close> without
  creation reports that the path does not exist. Further, a requested sub-tree that
  is a mapping comes back as an empty mapping, and a second path under the same
  mapping replaces what the first path copied there.
\<close>

theorem RichGet_missing_segment_still_contributes:
  "RichGet [(''b'', VInt 1)] [''x.b''] = [(''b'', VInt 1)]
   \<and> snd (snd (snd (snd (findElement [(''b'', VInt 1)] ''x.b'' False)))) = False
   \<and> RichGet [(''a'', VMap [(''b'', VMap [(''c'', VInt 1)])])] [''a.b''] = [(''a'', VMap [(''b'', VMap [])])]
   \<and> RichGet [(''a'', VMap [(''b'', VInt 1), (''c'', VInt 2)])] [''a.b'', ''a.c'']
      = [(''a'', VMap [(''c'', VInt 2)])]"
  by (simp add: RichGet_def RichGet_field_def dot_def assign_at_def findElement_def)




end
